theory Spec2Isabelle
  imports Complex_Main
begin

section \<open>Values of the Python program\<close>

text \<open>
  The agent works on what \<open>json.loads\<close> returns: \<open>None\<close>, booleans, integers, floats,
  strings, lists and dictionaries. A dictionary is an association list read with
  \<open>map_of\<close>. A float is held by its exact value; the code only ever asks whether it is
  zero. Texts are \<open>string\<close>s, one \<open>char\<close> per character; the four decorative glyphs
  of the log messages lie outside the range of \<open>char\<close> and are spelled by their UTF-8
  bytes.
\<close>

datatype json =
    JNull
  | JBool bool
  | JInt int
  | JFloat rat
  | JStr string
  | JArr "json list"
  | JObj "(string \<times> json) list"

text \<open>
  An exception is its class and the text \<open>str(e)\<close>. The handlers of the agent tell
  \<open>json.JSONDecodeError\<close> from every other subclass of \<open>Exception\<close>; \<open>OtherError\<close> stands
  for what a collaborator (the model provider, a callback, the operating system) raises.
  The texts of the errors the interpreter raises itself are those of CPython 3.11.
\<close>

datatype exn_class = JSONDecodeError | ValueError | TypeError | AttributeError | KeyError
  | OtherError

datatype exn = Exn exn_class string

fun str_exn :: "exn \<Rightarrow> string" where
  "str_exn (Exn c m) = m"

fun exn_cls :: "exn \<Rightarrow> exn_class" where
  "exn_cls (Exn c m) = c"

definition ebind :: "exn + 'a \<Rightarrow> ('a \<Rightarrow> exn + 'b) \<Rightarrow> exn + 'b" where
  "ebind m f = (case m of Inl e \<Rightarrow> Inl e | Inr x \<Rightarrow> f x)"

definition nl :: string where
  "nl = [CHR 0x0A]"

definition quoted :: "string \<Rightarrow> string" where
  "quoted s = [CHR 0x27] @ s @ [CHR 0x27]"

definition cross_mark :: string where
  "cross_mark = [CHR 0xE2, CHR 0x9D, CHR 0x8C]"

definition check_mark :: string where
  "check_mark = [CHR 0xE2, CHR 0x9C, CHR 0x85]"

definition bullet :: string where
  "bullet = [CHR 0xE2, CHR 0x80, CHR 0xA2]"

definition warning_sign :: string where
  "warning_sign = [CHR 0xE2, CHR 0x9A, CHR 0xA0, CHR 0xEF, CHR 0xB8, CHR 0x8F]"

text \<open>\<open>sep.join(xs)\<close>.\<close>

fun join :: "string \<Rightarrow> string list \<Rightarrow> string" where
  "join sep [] = []"
| "join sep [x] = x"
| "join sep (x # y # ys) = x @ sep @ join sep (y # ys)"

text \<open>\<open>str(n)\<close> of a natural number, as the f-strings print indices and lengths.\<close>

fun str_nat :: "nat \<Rightarrow> string" where
  "str_nat n =
     (if n < 10 then [char_of (48 + n)]
      else str_nat (n div 10) @ [char_of (48 + n mod 10)])"

declare str_nat.simps [simp del]

text \<open>\<open>type(v).__name__\<close>.\<close>

fun type_name :: "json \<Rightarrow> string" where
  "type_name JNull = ''NoneType''"
| "type_name (JBool b) = ''bool''"
| "type_name (JInt i) = ''int''"
| "type_name (JFloat q) = ''float''"
| "type_name (JStr s) = ''str''"
| "type_name (JArr xs) = ''list''"
| "type_name (JObj kvs) = ''dict''"

text \<open>Truthiness, as \<open>if v:\<close> tests it.\<close>

fun truthy :: "json \<Rightarrow> bool" where
  "truthy JNull = False"
| "truthy (JBool b) = b"
| "truthy (JInt i) = (i \<noteq> 0)"
| "truthy (JFloat q) = (q \<noteq> 0)"
| "truthy (JStr s) = (s \<noteq> [])"
| "truthy (JArr xs) = (xs \<noteq> [])"
| "truthy (JObj kvs) = (kvs \<noteq> [])"

text \<open>\<open>sub in s\<close> on two strings: \<open>sub\<close> occurs in \<open>s\<close> as a contiguous piece.\<close>

fun starts_with :: "string \<Rightarrow> string \<Rightarrow> bool" where
  "starts_with s [] = True"
| "starts_with [] (p # ps) = False"
| "starts_with (c # cs) (p # ps) = (c = p \<and> starts_with cs ps)"

fun str_contains :: "string \<Rightarrow> string \<Rightarrow> bool" where
  "str_contains [] sub = (sub = [])"
| "str_contains (c # cs) sub = (starts_with (c # cs) sub \<or> str_contains cs sub)"

text \<open>
  \<open>k in v\<close> for a string \<open>k\<close>: key membership on a dictionary, element membership on a
  list, substring on a string, and a \<open>TypeError\<close> on everything else.
\<close>

fun py_in :: "string \<Rightarrow> json \<Rightarrow> exn + bool" where
  "py_in k (JObj kvs) = Inr (k \<in> set (map fst kvs))"
| "py_in k (JArr xs) = Inr (JStr k \<in> set xs)"
| "py_in k (JStr s) = Inr (str_contains s k)"
| "py_in k v =
     Inl (Exn TypeError (''argument of type '' @ quoted (type_name v) @ '' is not iterable''))"

text \<open>\<open>v[k]\<close> for a string \<open>k\<close>.\<close>

fun py_getitem :: "json \<Rightarrow> string \<Rightarrow> exn + json" where
  "py_getitem (JObj kvs) k =
     (case map_of kvs k of None \<Rightarrow> Inl (Exn KeyError (quoted k)) | Some v \<Rightarrow> Inr v)"
| "py_getitem (JArr xs) k =
     Inl (Exn TypeError ''list indices must be integers or slices, not str'')"
| "py_getitem (JStr s) k =
     Inl (Exn TypeError (''string indices must be integers, not '' @ quoted ''str''))"
| "py_getitem v k =
     Inl (Exn TypeError (quoted (type_name v) @ '' object is not subscriptable''))"

text \<open>\<open>v.get(k, default)\<close>: only a dictionary has the method.\<close>

fun py_get :: "json \<Rightarrow> string \<Rightarrow> json \<Rightarrow> exn + json" where
  "py_get (JObj kvs) k dflt = Inr (case map_of kvs k of None \<Rightarrow> dflt | Some v \<Rightarrow> v)"
| "py_get v k dflt =
     Inl (Exn AttributeError
       (quoted (type_name v) @ '' object has no attribute '' @ quoted ''get''))"

text \<open>What a \<open>for\<close> loop runs over: the elements of a list, the keys of a dictionary,
  the characters of a string.\<close>

fun py_iter :: "json \<Rightarrow> exn + json list" where
  "py_iter (JArr xs) = Inr xs"
| "py_iter (JObj kvs) = Inr (map JStr (remdups (map fst kvs)))"
| "py_iter (JStr s) = Inr (map (\<lambda>c. JStr [c]) s)"
| "py_iter v = Inl (Exn TypeError (quoted (type_name v) @ '' object is not iterable''))"

text \<open>\<open>str.isspace\<close> on one character, and \<open>s.strip()\<close>.\<close>

definition is_space :: "char \<Rightarrow> bool" where
  "is_space c = ((of_char c :: nat) \<in> {9, 10, 11, 12, 13, 28, 29, 30, 31, 32, 133, 160})"

definition strip :: "string \<Rightarrow> string" where
  "strip s = rev (dropWhile is_space (rev (dropWhile is_space s)))"

fun py_strip :: "json \<Rightarrow> exn + string" where
  "py_strip (JStr s) = Inr (strip s)"
| "py_strip v =
     Inl (Exn AttributeError
       (quoted (type_name v) @ '' object has no attribute '' @ quoted ''strip''))"

section \<open>The dashboard validator\<close>

type_synonym verdict = "bool \<times> string"

text \<open>The line \<open>f"  \<bullet> {e}"\<close> of a diagnostic list.\<close>

definition bullet_line :: "string \<Rightarrow> string" where
  "bullet_line e = ''  '' @ bullet @ '' '' @ e"

text \<open>\<open>required_fields\<close>: each field with the name of the type it must have.\<close>

definition required_fields :: "(string \<times> string) list" where
  "required_fields = [(''title'', ''str''), (''panels'', ''list'')]"

text \<open>One round of the loop over \<open>required_fields.items()\<close>.\<close>

fun required_field_error :: "(string \<times> json) list \<Rightarrow> string \<times> string \<Rightarrow> string list" where
  "required_field_error dashboard (field, expected_type) =
     (case map_of dashboard field of
        None \<Rightarrow> [''Missing required field: '' @ quoted field]
      | Some v \<Rightarrow>
          if type_name v \<noteq> expected_type
          then [''Field '' @ quoted field @ '' should be '' @ expected_type @ '', got ''
                  @ type_name v]
          else [])"

definition panel_missing :: "nat \<Rightarrow> string \<Rightarrow> json \<Rightarrow> exn + string list" where
  "panel_missing i k panel =
     ebind (py_in k panel) (\<lambda>present.
       Inr (if present then []
            else [''Panel '' @ str_nat i @ '': Missing '' @ quoted k]))"

text \<open>The loop over \<open>required_grid_fields\<close>.\<close>

fun check_grid :: "nat \<Rightarrow> json \<Rightarrow> string list \<Rightarrow> exn + string list" where
  "check_grid i grid [] = Inr []"
| "check_grid i grid (field # fields) =
     ebind (py_in field grid) (\<lambda>present.
     ebind (check_grid i grid fields) (\<lambda>rest.
       Inr ((if present then []
             else [''Panel '' @ str_nat i @ '': gridPos missing '' @ quoted field]) @ rest)))"

text \<open>One target: \<open>and\<close> does not look for \<open>query\<close> when \<open>expr\<close> is there.\<close>

definition check_target :: "nat \<Rightarrow> nat \<Rightarrow> json \<Rightarrow> exn + string list" where
  "check_target i j target =
     ebind (py_in ''expr'' target) (\<lambda>has_expr.
     ebind (if has_expr then Inr True else py_in ''query'' target) (\<lambda>has_query.
     ebind (py_in ''refId'' target) (\<lambda>has_ref.
       Inr ((if \<not> has_expr \<and> \<not> has_query
             then [''Panel '' @ str_nat i @ '', Target '' @ str_nat j @ '': Missing ''
                     @ quoted ''expr'' @ '' or '' @ quoted ''query'']
             else [])
            @ (if has_ref then []
               else [''Panel '' @ str_nat i @ '', Target '' @ str_nat j @ '': Missing ''
                       @ quoted ''refId''])))))"

fun check_targets :: "nat \<Rightarrow> nat \<Rightarrow> json list \<Rightarrow> exn + string list" where
  "check_targets i j [] = Inr []"
| "check_targets i j (target # targets) =
     ebind (check_target i j target) (\<lambda>es.
     ebind (check_targets i (Suc j) targets) (\<lambda>rest. Inr (es @ rest)))"

text \<open>The check of \<open>gridPos\<close>, required for positioning.\<close>

definition grid_errors :: "nat \<Rightarrow> json \<Rightarrow> exn + string list" where
  "grid_errors i panel =
     ebind (py_in ''gridPos'' panel) (\<lambda>has_grid.
       if has_grid
       then ebind (py_getitem panel ''gridPos'') (\<lambda>grid.
              check_grid i grid [''x'', ''y'', ''w'', ''h''])
       else Inr [''Panel '' @ str_nat i @ '': Missing '' @ quoted ''gridPos''])"

text \<open>The check of \<open>targets\<close>; a panel without the field adds nothing.\<close>

definition targets_errors :: "nat \<Rightarrow> json \<Rightarrow> exn + string list" where
  "targets_errors i panel =
     ebind (py_in ''targets'' panel) (\<lambda>has_targets.
       if has_targets
       then ebind (py_getitem panel ''targets'') (\<lambda>targets.
              case targets of
                JArr ts \<Rightarrow>
                  if length ts = 0
                  then Inr [''Panel '' @ str_nat i @ '': No targets (queries) defined'']
                  else check_targets i 0 ts
              | _ \<Rightarrow>
                  Inr [''Panel '' @ str_nat i @ '': '' @ quoted ''targets''
                         @ '' should be a list''])
       else Inr [])"

text \<open>The body of the loop over the panels: \<open>panel_errors\<close> of panel \<open>i\<close>.\<close>

definition check_panel :: "nat \<Rightarrow> json \<Rightarrow> exn + string list" where
  "check_panel i panel =
     ebind (panel_missing i ''id'' panel) (\<lambda>e_id.
     ebind (panel_missing i ''type'' panel) (\<lambda>e_type.
     ebind (panel_missing i ''title'' panel) (\<lambda>e_title.
     ebind (grid_errors i panel) (\<lambda>e_grid.
     ebind (targets_errors i panel) (\<lambda>e_targets.
       Inr (e_id @ e_type @ e_title @ e_grid @ e_targets))))))"

fun check_panels :: "nat \<Rightarrow> json list \<Rightarrow> exn + string list" where
  "check_panels i [] = Inr []"
| "check_panels i (panel # panels) =
     ebind (check_panel i panel) (\<lambda>es.
     ebind (check_panels (Suc i) panels) (\<lambda>rest. Inr (es @ rest)))"

text \<open>The recommended fields.\<close>

definition recommendations :: "(string \<times> json) list \<Rightarrow> string list" where
  "recommendations dashboard =
     (if ''uid'' \<in> set (map fst dashboard) then []
      else [''Recommended: Add '' @ quoted ''uid'' @ '' for dashboard identification''])
     @ (if ''schemaVersion'' \<in> set (map fst dashboard) then []
        else [''Recommended: Add '' @ quoted ''schemaVersion''])
     @ (if ''time'' \<in> set (map fst dashboard) then []
        else [''Recommended: Add '' @ quoted ''time'' @ '' object for default time range''])
     @ (if ''refresh'' \<in> set (map fst dashboard) then []
        else [''Recommended: Add '' @ quoted ''refresh'' @ '' for auto-refresh interval''])"

text \<open>The basic check of one query: \<open>or\<close> does not look for brackets once braces are found.\<close>

definition target_issues :: "nat \<Rightarrow> nat \<Rightarrow> json \<Rightarrow> exn + string list" where
  "target_issues i j target =
     ebind (py_get target ''expr'' (JStr [])) (\<lambda>expr.
       if truthy expr then
         ebind (py_in ''{}'' expr) (\<lambda>braces.
         ebind (if braces then Inr True else py_in ''[]'' expr) (\<lambda>empty_pair.
         ebind (py_strip expr) (\<lambda>stripped.
           Inr ((if empty_pair
                 then [''Panel '' @ str_nat i @ '', Target '' @ str_nat j
                         @ '': Query contains empty braces/brackets'']
                 else [])
                @ (if stripped = []
                   then [''Panel '' @ str_nat i @ '', Target '' @ str_nat j @ '': Empty query'']
                   else [])))))
       else Inr [])"

fun targets_issues :: "nat \<Rightarrow> nat \<Rightarrow> json list \<Rightarrow> exn + string list" where
  "targets_issues i j [] = Inr []"
| "targets_issues i j (target # targets) =
     ebind (target_issues i j target) (\<lambda>qs.
     ebind (targets_issues i (Suc j) targets) (\<lambda>rest. Inr (qs @ rest)))"

definition panel_issues :: "nat \<Rightarrow> json \<Rightarrow> exn + string list" where
  "panel_issues i panel =
     ebind (py_get panel ''targets'' (JArr [])) (\<lambda>targets.
     ebind (py_iter targets) (\<lambda>ts. targets_issues i 0 ts))"

fun panels_issues :: "nat \<Rightarrow> json list \<Rightarrow> exn + string list" where
  "panels_issues i [] = Inr []"
| "panels_issues i (panel # panels) =
     ebind (panel_issues i panel) (\<lambda>qs.
     ebind (panels_issues (Suc i) panels) (\<lambda>rest. Inr (qs @ rest)))"

text \<open>
  \<open>validate_grafana_dashboard\<close>, in the three stretches between its \<open>return\<close>s:
  \<open>Inr\<close> the returned pair, \<open>Inl\<close> an exception that leaves the function. The last
  stretch collects the recommendations and the query issues and returns \<open>True\<close>.
\<close>

definition advisory_part :: "(string \<times> json) list \<Rightarrow> json list \<Rightarrow> exn + verdict" where
  "advisory_part dashboard ps =
     (let logs = [check_mark @ '' Required fields: PASSED'',
                  check_mark @ '' Panel validation: PASSED ('' @ str_nat (length ps)
                    @ '' panels)''];
          warnings = recommendations dashboard;
          logs = logs @ (if warnings \<noteq> []
                         then [nl @ warning_sign @ ''  Recommendations:'']
                              @ map bullet_line warnings
                         else [])
      in
      ebind (panels_issues 0 ps) (\<lambda>query_issues.
        let logs = logs @ (if query_issues \<noteq> []
                           then [nl @ warning_sign @ ''  Query Issues:'']
                                @ map bullet_line query_issues
                           else [])
        in Inr (True, join nl logs)))"

text \<open>The middle stretch: the panels.\<close>

definition panels_part :: "(string \<times> json) list \<Rightarrow> exn + verdict" where
  "panels_part dashboard =
     (let panels = (case map_of dashboard ''panels'' of None \<Rightarrow> JArr [] | Some v \<Rightarrow> v);
          no_panels = (if \<not> truthy panels then [''Dashboard has no panels''] else [])
      in
      ebind (py_iter panels) (\<lambda>ps.
      ebind (check_panels 0 ps) (\<lambda>panel_errors.
        let errors = no_panels @ panel_errors in
        if errors \<noteq> [] then
          Inr (False, cross_mark @ '' Panel Validation: FAILED'' @ nl @ nl
                        @ join nl (map bullet_line errors))
        else advisory_part dashboard ps)))"

definition validate_grafana_dashboard :: "(string \<times> json) list \<Rightarrow> exn + verdict" where
  "validate_grafana_dashboard dashboard =
     (let errors = concat (map (required_field_error dashboard) required_fields) in
      if errors \<noteq> [] then
        Inr (False, cross_mark @ '' Dashboard Schema Validation: FAILED'' @ nl @ nl
                      @ join nl (map bullet_line errors))
      else panels_part dashboard)"

section \<open>The rule validator\<close>

text \<open>
  What one \<open>subprocess.run\<close> of the checker does: it exits with a status and the two
  captured texts, runs into the time limit, finds no executable, or fails otherwise
  (with the text of that exception).
\<close>

datatype proc_result =
    Exited int string string
  | TimeoutExpired
  | FileNotFoundError string
  | RunFailed string

text \<open>
  The surroundings of one validation: the temporary directory it is given, whether a
  file opens and takes a text (\<open>None\<close>, or the text of the exception), and what the
  checker does on a command line. The directory is taken to be created and removed
  without an error.
\<close>

record checker_env =
  tmpdir :: string
  open_w :: "string \<Rightarrow> string option"
  write_text :: "string \<Rightarrow> string \<Rightarrow> string option"
  run :: "string list \<Rightarrow> proc_result"

text \<open>\<open>os.path.join(a, b)\<close> for a relative \<open>b\<close>.\<close>

definition os_path_join :: "string \<Rightarrow> string \<Rightarrow> string" where
  "os_path_join a b =
     (if a = [] then b else if last a = CHR ''/'' then a @ b else a @ ''/'' @ b)"

text \<open>\<open>with open(path, "w") as f: f.write(v)\<close>; \<open>write\<close> refuses what is not a string.\<close>

definition write_file :: "checker_env \<Rightarrow> string \<Rightarrow> json \<Rightarrow> string option" where
  "write_file env path v =
     (case open_w env path of
        Some m \<Rightarrow> Some m
      | None \<Rightarrow>
          (case v of
             JStr s \<Rightarrow> write_text env path s
           | _ \<Rightarrow> Some (''write() argument must be str, not '' @ type_name v)))"

definition check_failed_msg :: "string \<Rightarrow> string \<Rightarrow> string" where
  "check_failed_msg out err =
     cross_mark @ '' Syntax Check: FAILED'' @ nl @ nl @ ''STDOUT:'' @ nl @ out @ nl @ nl
       @ ''STDERR:'' @ nl @ err"

definition test_failed_msg :: "string \<Rightarrow> string \<Rightarrow> string" where
  "test_failed_msg out err =
     cross_mark @ '' Unit Tests: FAILED'' @ nl @ nl @ ''STDOUT:'' @ nl @ out @ nl @ nl
       @ ''STDERR:'' @ nl @ err"

text \<open>The two files, and the two command lines given to \<open>subprocess.run\<close>.\<close>

definition rule_path :: "checker_env \<Rightarrow> string" where
  "rule_path env = os_path_join (tmpdir env) ''rules.yml''"

definition test_path :: "checker_env \<Rightarrow> string" where
  "test_path env = os_path_join (tmpdir env) ''tests.yml''"

definition check_cmd :: "checker_env \<Rightarrow> string list" where
  "check_cmd env = [''promtool'', ''check'', ''rules'', rule_path env]"

definition test_cmd :: "checker_env \<Rightarrow> string list" where
  "test_cmd env = [''promtool'', ''test'', ''rules'', test_path env]"

text \<open>The second phase, entered with the log lines of the first.\<close>

definition run_tests :: "checker_env \<Rightarrow> string list \<Rightarrow> verdict" where
  "run_tests env logs =
     (case run env (test_cmd env) of
        TimeoutExpired \<Rightarrow> (False, cross_mark @ '' Test execution timeout'')
      | FileNotFoundError m \<Rightarrow> (False, cross_mark @ '' Test execution error: '' @ m)
      | RunFailed m \<Rightarrow> (False, cross_mark @ '' Test execution error: '' @ m)
      | Exited rc out err \<Rightarrow>
          if rc = 0
          then (True, join nl (logs @ [check_mark @ '' Unit Tests: PASSED'', nl @ out]))
          else (False, join nl (logs @ [test_failed_msg out err])))"

text \<open>
  \<open>validate_prometheus_rules\<close>: the returned pair, and the command lines it ran, in
  order.
\<close>

definition validate_prometheus_rules ::
    "checker_env \<Rightarrow> json \<Rightarrow> json \<Rightarrow> verdict \<times> string list list" where
  "validate_prometheus_rules env rule_yaml test_yaml =
     (case write_file env (rule_path env) rule_yaml of
        Some m \<Rightarrow> ((False, cross_mark @ '' Error writing YAML files: '' @ m), [])
      | None \<Rightarrow>
      (case write_file env (test_path env) test_yaml of
        Some m \<Rightarrow> ((False, cross_mark @ '' Error writing YAML files: '' @ m), [])
      | None \<Rightarrow>
      (case run env (check_cmd env) of
        TimeoutExpired \<Rightarrow> ((False, cross_mark @ '' Syntax validation timeout''), [check_cmd env])
      | FileNotFoundError m \<Rightarrow>
          ((False, cross_mark @ '' promtool not found (not in container?)''), [check_cmd env])
      | RunFailed m \<Rightarrow>
          ((False, cross_mark @ '' Syntax check error: '' @ m), [check_cmd env])
      | Exited rc out err \<Rightarrow>
          if rc \<noteq> 0 then ((False, join nl [check_failed_msg out err]), [check_cmd env])
          else (run_tests env [check_mark @ '' Syntax Check: PASSED'', ''   '' @ strip out],
                [check_cmd env, test_cmd env]))))"

section \<open>The translation loop\<close>

record message =
  role :: string
  content :: string

text \<open>
  What a run does to its collaborators, in order: a call of the model with the
  conversation, the two optional callbacks, a call of the validator on the candidate of
  the attempt, and the verdict the validator returns. Each carries its attempt number.
\<close>

datatype event =
    EGenerate int "message list"
  | EOnAttempt int json
  | EValidate int json
  | EVerdict int bool string
  | EOnValidation int bool string

fun ev_attempt :: "event \<Rightarrow> int" where
  "ev_attempt (EGenerate a ms) = a"
| "ev_attempt (EOnAttempt a r) = a"
| "ev_attempt (EValidate a d) = a"
| "ev_attempt (EVerdict a v l) = a"
| "ev_attempt (EOnValidation a v l) = a"

fun is_generate :: "event \<Rightarrow> bool" where
  "is_generate (EGenerate a ms) = True"
| "is_generate ev = False"

text \<open>
  The collaborators of one run. \<open>complete\<close> is the call of the provider followed by
  \<open>response.choices[0].message.content\<close>: an exception, or the content, which may be
  \<open>None\<close>. \<open>json_loads\<close> is the library's parser: the text of a \<open>JSONDecodeError\<close>, or
  the value. A callback may be left out; when called it returns or raises. The
  provider, the callbacks and the checker may answer differently at each attempt, so
  each takes the attempt number. The two prompts are the module's constants; the code
  never looks into them. Collaborators raise subclasses of \<open>Exception\<close> only.
\<close>

record agent_env =
  QUERY_TRANSLATION_PROMPT :: string
  DASHBOARD_TRANSLATION_PROMPT :: string
  complete :: "int \<Rightarrow> message list \<Rightarrow> exn + string option"
  json_loads :: "string \<Rightarrow> string + json"
  on_attempt :: "(int \<Rightarrow> json \<Rightarrow> exn option) option"
  on_validation :: "(int \<Rightarrow> bool \<Rightarrow> string \<Rightarrow> exn option) option"
  checker :: "int \<Rightarrow> checker_env"

text \<open>The value the public operations return: \<open>(success, data, final_message)\<close>.\<close>

type_synonym outcome = "bool \<times> json option \<times> string"

text \<open>How one pass through the loop body ends: with a \<open>return\<close>, or by going on to the
  next attempt with the conversation.\<close>

datatype step = Done outcome | Retry "message list"

text \<open>A computation inside the \<open>try\<close>: the events so far, and an exception or a value.\<close>

type_synonym 'a traced = "event list \<times> (exn + 'a)"

definition tbind :: "'a traced \<Rightarrow> ('a \<Rightarrow> 'b traced) \<Rightarrow> 'b traced" where
  "tbind m f =
     (case m of
        (evs, Inl e) \<Rightarrow> (evs, Inl e)
      | (evs, Inr x) \<Rightarrow> (case f x of (evs', r) \<Rightarrow> (evs @ evs', r)))"

definition lift :: "exn + 'a \<Rightarrow> 'a traced" where
  "lift r = ([], r)"

text \<open>\<open>self.client.chat.completions.create(...)\<close> and the reading of the content.\<close>

definition call_model :: "agent_env \<Rightarrow> int \<Rightarrow> message list \<Rightarrow> string option traced" where
  "call_model env attempt messages = ([EGenerate attempt messages], complete env attempt messages)"

text \<open>\<open>json.loads(content)\<close>: the parsed value, given back with the text it came from.\<close>

definition py_json_loads :: "agent_env \<Rightarrow> string option \<Rightarrow> exn + string \<times> json" where
  "py_json_loads env completion =
     (case completion of
        None \<Rightarrow>
          Inl (Exn TypeError ''the JSON object must be str, bytes or bytearray, not NoneType'')
      | Some s \<Rightarrow>
          (case json_loads env s of
             Inl m \<Rightarrow> Inl (Exn JSONDecodeError m)
           | Inr v \<Rightarrow> Inr (s, v)))"

text \<open>\<open>[k for k in required if k not in data]\<close>.\<close>

fun missing_fields :: "string list \<Rightarrow> json \<Rightarrow> exn + string list" where
  "missing_fields [] data = Inr []"
| "missing_fields (k # ks) data =
     ebind (py_in k data) (\<lambda>present.
     ebind (missing_fields ks data) (\<lambda>rest.
       Inr ((if present then [] else [k]) @ rest)))"

text \<open>\<open>str\<close> of a list of plain strings.\<close>

definition repr_list :: "string list \<Rightarrow> string" where
  "repr_list ks = ''['' @ join '', '' (map quoted ks) @ '']''"

text \<open>\<open>if on_attempt: on_attempt(attempt, reasoning)\<close>; the argument is only evaluated
  when there is a callback.\<close>

definition notify_attempt :: "agent_env \<Rightarrow> int \<Rightarrow> exn + json \<Rightarrow> unit traced" where
  "notify_attempt env attempt reasoning =
     (case on_attempt env of
        None \<Rightarrow> ([], Inr ())
      | Some cb \<Rightarrow>
          (case reasoning of
             Inl e \<Rightarrow> ([], Inl e)
           | Inr r \<Rightarrow>
               ([EOnAttempt attempt r],
                case cb attempt r of None \<Rightarrow> Inr () | Some e \<Rightarrow> Inl e)))"

definition notify_validation :: "agent_env \<Rightarrow> int \<Rightarrow> bool \<Rightarrow> string \<Rightarrow> unit traced" where
  "notify_validation env attempt valid logs =
     (case on_validation env of
        None \<Rightarrow> ([], Inr ())
      | Some cb \<Rightarrow>
          ([EOnValidation attempt valid logs],
           case cb attempt valid logs of None \<Rightarrow> Inr () | Some e \<Rightarrow> Inl e))"

definition query_feedback :: "string \<Rightarrow> string" where
  "query_feedback logs =
     ''The previous output failed validation with these errors:'' @ nl @ nl @ logs @ nl @ nl
     @ ''Fix the errors and generate valid YAML. Make sure:'' @ nl
     @ ''1. YAML is properly indented (use spaces, not tabs)'' @ nl
     @ ''2. Strings with special characters are quoted'' @ nl
     @ ''3. Test cases use valid time series format'' @ nl
     @ ''4. Alert expressions are valid PromQL'' @ nl
     @ ''5. eval_time in tests is greater than the alert'' @ [CHR 0x27] @ ''s ''
     @ quoted ''for'' @ '' duration''"

definition dashboard_feedback :: "string \<Rightarrow> string" where
  "dashboard_feedback logs =
     ''The dashboard failed schema validation with these errors:'' @ nl @ nl @ logs @ nl @ nl
     @ ''Fix the errors and regenerate a valid Grafana dashboard. Make sure:'' @ nl
     @ ''1. All required fields are present (title, panels, etc.)'' @ nl
     @ ''2. Each panel has: id, type, title, gridPos, targets'' @ nl
     @ ''3. gridPos includes: x, y, w, h'' @ nl
     @ ''4. Each target has: expr (or query) and refId'' @ nl
     @ ''5. Panel IDs are unique integers'' @ nl
     @ ''6. Queries use valid PromQL syntax''"

text \<open>The end of the \<open>try\<close> block, the same in both operations up to the text of the
  follow-up: return on a pass, grow the conversation when attempts remain, return the
  failure otherwise.\<close>

definition conclude ::
    "(string \<Rightarrow> string) \<Rightarrow> int \<Rightarrow> int \<Rightarrow> message list \<Rightarrow> string \<Rightarrow> json \<Rightarrow> bool \<Rightarrow> string
      \<Rightarrow> step" where
  "conclude feedback max_retries attempt messages text data valid logs =
     (if valid then Done (True, Some data, logs)
      else if attempt < max_retries
      then Retry (messages @ [\<lparr>role = ''assistant'', content = text\<rparr>,
                              \<lparr>role = ''user'', content = feedback logs\<rparr>])
      else Done (False, Some data, logs))"

text \<open>The two \<open>except\<close> clauses.\<close>

definition handle_exception :: "int \<Rightarrow> int \<Rightarrow> message list \<Rightarrow> exn \<Rightarrow> step" where
  "handle_exception max_retries attempt messages e =
     (if exn_cls e = JSONDecodeError
      then (if attempt = max_retries
            then Done (False, None, ''JSON parsing failed: '' @ str_exn e)
            else Retry messages)
      else (if attempt = max_retries
            then Done (False, None, str_exn e)
            else Retry messages))"

text \<open>
  The \<open>try\<close> block of \<open>translate_query\<close>, in the order of its statements: the call
  of the model and the parsing; the check of the structure and the \<open>on_attempt\<close>
  notification; the call of the validator; the \<open>on_validation\<close> notification and the
  branch on the verdict.
\<close>

definition query_prepare :: "agent_env \<Rightarrow> int \<Rightarrow> json \<Rightarrow> unit traced" where
  "query_prepare env attempt data =
     tbind (lift (missing_fields [''reasoning'', ''rule_yaml'', ''test_yaml''] data)) (\<lambda>missing.
     tbind (lift (if missing \<noteq> []
                  then Inl (Exn ValueError (''Missing required fields: '' @ repr_list missing))
                  else Inr ())) (\<lambda>_.
     notify_attempt env attempt (py_getitem data ''reasoning'')))"

definition query_validate :: "agent_env \<Rightarrow> int \<Rightarrow> json \<Rightarrow> verdict traced" where
  "query_validate env attempt data =
     tbind (lift (py_getitem data ''rule_yaml'')) (\<lambda>rule_yaml.
     tbind (lift (py_getitem data ''test_yaml'')) (\<lambda>test_yaml.
       case fst (validate_prometheus_rules (checker env attempt) rule_yaml test_yaml) of
         (valid, logs) \<Rightarrow>
           ([EValidate attempt data, EVerdict attempt valid logs], Inr (valid, logs))))"

definition finish ::
    "agent_env \<Rightarrow> (string \<Rightarrow> string) \<Rightarrow> int \<Rightarrow> int \<Rightarrow> message list \<Rightarrow> string \<Rightarrow> json
      \<Rightarrow> verdict \<Rightarrow> step traced" where
  "finish env feedback max_retries attempt messages text data verdict =
     (case verdict of
        (valid, logs) \<Rightarrow>
          tbind (notify_validation env attempt valid logs) (\<lambda>_.
            ([], Inr (conclude feedback max_retries attempt messages text data valid logs))))"

definition query_try :: "agent_env \<Rightarrow> int \<Rightarrow> int \<Rightarrow> message list \<Rightarrow> step traced" where
  "query_try env max_retries attempt messages =
     tbind (call_model env attempt messages) (\<lambda>completion.
     tbind (lift (py_json_loads env completion)) (\<lambda>(text, data).
     tbind (query_prepare env attempt data) (\<lambda>_.
     tbind (query_validate env attempt data) (\<lambda>verdict.
       finish env query_feedback max_retries attempt messages text data verdict))))"

text \<open>The \<open>try\<close> block of \<open>translate_dashboard\<close>, in the same four parts. The validator
  of dashboards may itself raise.\<close>

definition dashboard_prepare :: "agent_env \<Rightarrow> int \<Rightarrow> json \<Rightarrow> unit traced" where
  "dashboard_prepare env attempt data =
     tbind (lift (py_in ''grafana_dashboard'' data)) (\<lambda>present.
     tbind (lift (if \<not> present
                  then Inl (Exn ValueError
                         (''Missing '' @ quoted ''grafana_dashboard'' @ '' in response''))
                  else Inr ())) (\<lambda>_.
     notify_attempt env attempt (py_get data ''reasoning'' (JStr ''N/A''))))"

definition dashboard_validate :: "agent_env \<Rightarrow> int \<Rightarrow> json \<Rightarrow> verdict traced" where
  "dashboard_validate env attempt data =
     tbind (lift (py_getitem data ''grafana_dashboard'')) (\<lambda>dashboard.
     tbind (lift (case dashboard of
                    JObj kvs \<Rightarrow> Inr kvs
                  | _ \<Rightarrow> Inl (Exn ValueError ''Dashboard is not a valid JSON object''))) (\<lambda>kvs.
       case validate_grafana_dashboard kvs of
         Inl e \<Rightarrow> ([EValidate attempt data], Inl e)
       | Inr (valid, logs) \<Rightarrow>
           ([EValidate attempt data, EVerdict attempt valid logs], Inr (valid, logs))))"

definition dashboard_try :: "agent_env \<Rightarrow> int \<Rightarrow> int \<Rightarrow> message list \<Rightarrow> step traced" where
  "dashboard_try env max_retries attempt messages =
     tbind (call_model env attempt messages) (\<lambda>completion.
     tbind (lift (py_json_loads env completion)) (\<lambda>(text, data).
     tbind (dashboard_prepare env attempt data) (\<lambda>_.
     tbind (dashboard_validate env attempt data) (\<lambda>verdict.
       finish env dashboard_feedback max_retries attempt messages text data verdict))))"

text \<open>One pass through the loop body: the \<open>try\<close> block, then the handler if it raised.\<close>

definition run_step :: "step traced \<Rightarrow> int \<Rightarrow> int \<Rightarrow> message list \<Rightarrow> event list \<times> step" where
  "run_step t max_retries attempt messages =
     (case t of
        (evs, Inl e) \<Rightarrow> (evs, handle_exception max_retries attempt messages e)
      | (evs, Inr s) \<Rightarrow> (evs, s))"

definition query_step :: "agent_env \<Rightarrow> int \<Rightarrow> int \<Rightarrow> message list \<Rightarrow> event list \<times> step" where
  "query_step env max_retries attempt messages =
     run_step (query_try env max_retries attempt messages) max_retries attempt messages"

definition dashboard_step :: "agent_env \<Rightarrow> int \<Rightarrow> int \<Rightarrow> message list \<Rightarrow> event list \<times> step" where
  "dashboard_step env max_retries attempt messages =
     run_step (dashboard_try env max_retries attempt messages) max_retries attempt messages"

text \<open>
  \<open>for attempt in range(1, max_retries + 1)\<close>: the passes that remain are counted down,
  and the line after the loop is reached when none is left.
\<close>

fun attempt_loop ::
    "(int \<Rightarrow> message list \<Rightarrow> event list \<times> step) \<Rightarrow> int \<Rightarrow> nat \<Rightarrow> message list
      \<Rightarrow> event list \<times> outcome" where
  "attempt_loop body attempt 0 messages = ([], (False, None, ''Max retries reached''))"
| "attempt_loop body attempt (Suc n) messages =
     (case body attempt messages of
        (evs, Done r) \<Rightarrow> (evs, r)
      | (evs, Retry messages') \<Rightarrow>
          (case attempt_loop body (attempt + 1) n messages' of
             (evs', r) \<Rightarrow> (evs @ evs', r)))"

definition translate_query :: "agent_env \<Rightarrow> string \<Rightarrow> int \<Rightarrow> event list \<times> outcome" where
  "translate_query env datadog_query max_retries =
     attempt_loop (query_step env max_retries) 1 (nat max_retries)
       [\<lparr>role = ''system'', content = QUERY_TRANSLATION_PROMPT env\<rparr>,
        \<lparr>role = ''user'',
         content = ''Translate this monitoring query:'' @ nl @ datadog_query\<rparr>]"

definition translate_dashboard :: "agent_env \<Rightarrow> string \<Rightarrow> int \<Rightarrow> event list \<times> outcome" where
  "translate_dashboard env datadog_dashboard_json max_retries =
     attempt_loop (dashboard_step env max_retries) 1 (nat max_retries)
       [\<lparr>role = ''system'', content = DASHBOARD_TRANSLATION_PROMPT env\<rparr>,
        \<lparr>role = ''user'',
         content = ''Translate this Datadog dashboard to Grafana:'' @ nl
                     @ datadog_dashboard_json\<rparr>]"

section \<open>Names used in the statements\<close>

text \<open>A checker whose every run exits with status 1.\<close>

definition env_check_fails :: checker_env where
  "env_check_fails =
     \<lparr>tmpdir = ''/tmp/v'', open_w = (\<lambda>p. None), write_text = (\<lambda>p s. None),
      run = (\<lambda>argv. Exited 1 ''out'' ''err'')\<rparr>"

text \<open>A checker environment in which files are written without error and the checker
  answers as \<open>f\<close> says.\<close>

definition env_with :: "(string list \<Rightarrow> proc_result) \<Rightarrow> checker_env" where
  "env_with f =
     \<lparr>tmpdir = ''/tmp/v'', open_w = (\<lambda>p. None), write_text = (\<lambda>p s. None), run = f\<rparr>"

text \<open>A checker that passes the syntax check and answers \<open>r\<close> to everything else.\<close>

definition check_ok_then :: "proc_result \<Rightarrow> string list \<Rightarrow> proc_result" where
  "check_ok_then r argv = (if argv ! 1 = ''check'' then Exited 0 ''ok'' [] else r)"

text \<open>The diagnostic texts of the timeout and missing-executable cases.\<close>

definition syntax_timeout_msg :: string where
  "syntax_timeout_msg = cross_mark @ '' Syntax validation timeout''"

definition not_found_msg :: string where
  "not_found_msg = cross_mark @ '' promtool not found (not in container?)''"

definition test_timeout_msg :: string where
  "test_timeout_msg = cross_mark @ '' Test execution timeout''"

definition test_error_msg :: "string \<Rightarrow> string" where
  "test_error_msg m = cross_mark @ '' Test execution error: '' @ m"

text \<open>
  The first rule of the validator in the specification's words: for each required
  top-level field in turn (\<open>title\<close>, a text; \<open>panels\<close>, a sequence), a violation when
  the field is missing and a violation when it has another type.
\<close>

definition field_missing :: "(string \<times> json) list \<Rightarrow> string \<Rightarrow> bool" where
  "field_missing d f = (map_of d f = None)"

definition field_mistyped :: "(string \<times> json) list \<Rightarrow> string \<Rightarrow> string \<Rightarrow> bool" where
  "field_mistyped d f ty = (case map_of d f of None \<Rightarrow> False | Some v \<Rightarrow> type_name v \<noteq> ty)"

definition spec_field_violation :: "(string \<times> json) list \<Rightarrow> string \<Rightarrow> string \<Rightarrow> string list" where
  "spec_field_violation d f ty =
     (if field_missing d f then [''Missing required field: '' @ quoted f]
      else if field_mistyped d f ty
      then (case map_of d f of
              None \<Rightarrow> []
            | Some v \<Rightarrow> [''Field '' @ quoted f @ '' should be '' @ ty @ '', got '' @ type_name v])
      else [])"

definition spec_top_level_violations :: "(string \<times> json) list \<Rightarrow> string list" where
  "spec_top_level_violations d =
     spec_field_violation d ''title'' ''str'' @ spec_field_violation d ''panels'' ''list''"

text \<open>The minimal valid dashboard of the specification, and the same dashboard with a
  number where the query text belongs.\<close>

definition grid_pos :: json where
  "grid_pos = JObj [(''x'', JInt 0), (''y'', JInt 0), (''w'', JInt 12), (''h'', JInt 8)]"

definition panel_with :: "(string \<times> json) list \<Rightarrow> json" where
  "panel_with rest =
     JObj ([(''id'', JInt 1), (''type'', JStr ''timeseries''), (''title'', JStr ''P''),
            (''gridPos'', grid_pos)] @ rest)"

definition minimal_dashboard :: "(string \<times> json) list" where
  "minimal_dashboard =
     [(''title'', JStr ''T''),
      (''panels'', JArr [panel_with
         [(''targets'', JArr [JObj [(''expr'', JStr ''up''), (''refId'', JStr ''A'')]])]])]"

definition numeric_expr_dashboard :: "(string \<times> json) list" where
  "numeric_expr_dashboard =
     [(''title'', JStr ''T''),
      (''panels'', JArr [panel_with
         [(''targets'', JArr [JObj [(''expr'', JInt 5), (''refId'', JStr ''A'')]])]])]"

text \<open>A dashboard whose only panel has no \<open>targets\<close> field at all.\<close>

definition no_targets_dashboard :: "(string \<times> json) list" where
  "no_targets_dashboard = [(''title'', JStr ''T''), (''panels'', JArr [panel_with []])]"

text \<open>
  The words of the claims about dashboards: the panels of a dashboard, the targets of a
  panel (what \<open>panel.get("targets", [])\<close> runs over), a panel whose \<open>targets\<close> field is
  there and is the empty list, and a target with neither \<open>expr\<close> nor \<open>query\<close>.
\<close>

definition dashboard_panels :: "(string \<times> json) list \<Rightarrow> json list" where
  "dashboard_panels d = (case map_of d ''panels'' of Some (JArr ps) \<Rightarrow> ps | _ \<Rightarrow> [])"

definition panel_targets :: "json \<Rightarrow> json list" where
  "panel_targets p =
     (case p of
        JObj kvs \<Rightarrow> (case map_of kvs ''targets'' of Some (JArr ts) \<Rightarrow> ts | _ \<Rightarrow> [])
      | _ \<Rightarrow> [])"

definition has_empty_targets :: "json \<Rightarrow> bool" where
  "has_empty_targets p =
     (case p of JObj kvs \<Rightarrow> map_of kvs ''targets'' = Some (JArr []) | _ \<Rightarrow> False)"

definition has_field :: "string \<Rightarrow> json \<Rightarrow> bool" where
  "has_field k v = (case v of JObj kvs \<Rightarrow> k \<in> set (map fst kvs) | _ \<Rightarrow> False)"

definition lacks_query :: "json \<Rightarrow> bool" where
  "lacks_query t = (\<not> has_field ''expr'' t \<and> \<not> has_field ''query'' t)"

text \<open>Panels and targets of the shape the data model gives them: every panel an object,
  its \<open>gridPos\<close> (when there) an object, and every element of a list of targets an
  object.\<close>

definition is_object :: "json \<Rightarrow> bool" where
  "is_object v = (case v of JObj kvs \<Rightarrow> True | _ \<Rightarrow> False)"

definition panel_shaped :: "json \<Rightarrow> bool" where
  "panel_shaped p =
     (case p of
        JObj kvs \<Rightarrow>
          (case map_of kvs ''gridPos'' of None \<Rightarrow> True | Some g \<Rightarrow> is_object g)
          \<and> (case map_of kvs ''targets'' of
                Some (JArr ts) \<Rightarrow> list_all is_object ts
              | _ \<Rightarrow> True)
      | _ \<Rightarrow> False)"

definition well_shaped :: "(string \<times> json) list \<Rightarrow> bool" where
  "well_shaped d = list_all panel_shaped (dashboard_panels d)"

text \<open>A panel none of whose targets exist, a panel one of whose targets has neither
  \<open>expr\<close> nor \<open>query\<close>, and a dashboard whose only panel has an empty list of
  targets.\<close>

definition has_no_targets :: "json \<Rightarrow> bool" where
  "has_no_targets p = (panel_targets p = [])"

definition has_target_lacking_query :: "json \<Rightarrow> bool" where
  "has_target_lacking_query p = list_ex lacks_query (panel_targets p)"

definition empty_targets_dashboard :: "(string \<times> json) list" where
  "empty_targets_dashboard =
     [(''title'', JStr ''T''), (''panels'', JArr [panel_with [(''targets'', JArr [])]])]"

text \<open>
  Words of the claims about a run: the \<open>on_validation\<close> callback, if there is one,
  returns from its call of attempt \<open>a\<close>; a verdict \<open>v\<close> was returned at attempt
  \<open>k\<close>; a candidate has all the fields of a list.
\<close>

definition validation_callback_returns :: "agent_env \<Rightarrow> int \<Rightarrow> bool \<Rightarrow> string \<Rightarrow> bool" where
  "validation_callback_returns env a valid logs =
     (case on_validation env of None \<Rightarrow> True | Some cb \<Rightarrow> cb a valid logs = None)"

fun is_verdict :: "int \<Rightarrow> bool \<Rightarrow> event \<Rightarrow> bool" where
  "is_verdict k v (EVerdict a valid logs) = (a = k \<and> valid = v)"
| "is_verdict k v ev = False"

definition verdict_at :: "int \<Rightarrow> bool \<Rightarrow> event list \<Rightarrow> bool" where
  "verdict_at k v evs = list_ex (is_verdict k v) evs"

definition has_fields :: "string list \<Rightarrow> json \<Rightarrow> bool" where
  "has_fields ks data = list_all (\<lambda>k. has_field k data) ks"

text \<open>The events of the callbacks and of the validator: of attempt \<open>a\<close>, and no call of
  the model.\<close>

definition tagged :: "event list \<Rightarrow> int \<Rightarrow> bool" where
  "tagged evs a = list_all (\<lambda>ev. ev_attempt ev = a \<and> \<not> is_generate ev) evs"

text \<open>
  Scripted collaborators for a dashboard run: the model always answers with a text that
  parses to an object holding the dashboard \<open>dash\<close> (and nothing else); there is no
  \<open>on_attempt\<close> callback, and the \<open>on_validation\<close> callback is \<open>cb\<close>.
\<close>

definition dashboard_reply :: "(string \<times> json) list \<Rightarrow> json" where
  "dashboard_reply dash = JObj [(''grafana_dashboard'', JObj dash)]"

definition dashboard_env ::
    "(string \<times> json) list \<Rightarrow> (int \<Rightarrow> bool \<Rightarrow> string \<Rightarrow> exn option) option \<Rightarrow> agent_env" where
  "dashboard_env dash cb =
     \<lparr>QUERY_TRANSLATION_PROMPT = ''Q'', DASHBOARD_TRANSLATION_PROMPT = ''D'',
      complete = (\<lambda>a ms. Inr (Some ''reply'')),
      json_loads = (\<lambda>s. Inr (dashboard_reply dash)),
      on_attempt = None, on_validation = cb,
      checker = (\<lambda>a. env_check_fails)\<rparr>"

definition raising_callback :: "(int \<Rightarrow> bool \<Rightarrow> string \<Rightarrow> exn option) option" where
  "raising_callback = Some (\<lambda>a valid logs. Some (Exn OtherError ''callback failed''))"

text \<open>Events that are neither a call of the validator nor a verdict, and lists without
  a verdict.\<close>

fun is_quiet :: "event \<Rightarrow> bool" where
  "is_quiet (EValidate a data) = False"
| "is_quiet (EVerdict a valid logs) = False"
| "is_quiet ev = True"

definition quiet :: "event list \<Rightarrow> bool" where
  "quiet evs = list_all is_quiet evs"

fun is_no_verdict :: "event \<Rightarrow> bool" where
  "is_no_verdict (EVerdict a valid logs) = False"
| "is_no_verdict ev = True"

definition unjudged :: "event list \<Rightarrow> bool" where
  "unjudged evs = list_all is_no_verdict evs"

text \<open>The logs of the validator on the minimal dashboard and on the dashboard whose
  panel has an empty list of targets, and the conversation a dashboard run starts
  with under the scripted collaborators.\<close>

definition minimal_log :: string where
  "minimal_log =
     check_mark @ '' Required fields: PASSED'' @ nl
     @ check_mark @ '' Panel validation: PASSED (1 panels)'' @ nl
     @ nl @ warning_sign @ ''  Recommendations:'' @ nl
     @ ''  '' @ bullet @ '' Recommended: Add '' @ quoted ''uid''
         @ '' for dashboard identification'' @ nl
     @ ''  '' @ bullet @ '' Recommended: Add '' @ quoted ''schemaVersion'' @ nl
     @ ''  '' @ bullet @ '' Recommended: Add '' @ quoted ''time''
         @ '' object for default time range'' @ nl
     @ ''  '' @ bullet @ '' Recommended: Add '' @ quoted ''refresh''
         @ '' for auto-refresh interval''"

definition empty_targets_log :: string where
  "empty_targets_log =
     cross_mark @ '' Panel Validation: FAILED'' @ nl @ nl
     @ ''  '' @ bullet @ '' Panel 0: No targets (queries) defined''"

definition first_conversation :: "message list" where
  "first_conversation =
     [\<lparr>role = ''system'', content = ''D''\<rparr>,
      \<lparr>role = ''user'',
       content = ''Translate this Datadog dashboard to Grafana:'' @ nl @ ''src''\<rparr>]"

section \<open>Properties\<close>

subsection \<open>Rule validator\<close>

lemma cmds_distinct: "check_cmd env \<noteq> test_cmd env"
  by (simp add: check_cmd_def test_cmd_def)

lemma commands_run:
  "snd (validate_prometheus_rules env r t) =
     (if write_file env (rule_path env) r = None \<and> write_file env (test_path env) t = None
      then (case run env (check_cmd env) of
              Exited rc out err \<Rightarrow> if rc \<noteq> 0 then [check_cmd env]
                                   else [check_cmd env, test_cmd env]
            | TimeoutExpired \<Rightarrow> [check_cmd env]
            | FileNotFoundError m \<Rightarrow> [check_cmd env]
            | RunFailed m \<Rightarrow> [check_cmd env])
      else [])"
proof (cases "write_file env (rule_path env) r")
  case (Some m)
  then show ?thesis by (simp add: validate_prometheus_rules_def)
next
  case None
  note w1 = None
  show ?thesis
  proof (cases "write_file env (test_path env) t")
    case (Some m)
    with w1 show ?thesis by (simp add: validate_prometheus_rules_def)
  next
    case None
    with w1 show ?thesis
      by (cases "run env (check_cmd env)") (simp_all add: validate_prometheus_rules_def)
  qed
qed

lemma invoked_check_iff:
  "check_cmd env \<in> set (snd (validate_prometheus_rules env r t)) \<longleftrightarrow>
     write_file env (rule_path env) r = None \<and> write_file env (test_path env) t = None"
  by (cases "run env (check_cmd env)") (simp_all add: commands_run)

lemma invoked_test_iff:
  "test_cmd env \<in> set (snd (validate_prometheus_rules env r t)) \<longleftrightarrow>
     check_cmd env \<in> set (snd (validate_prometheus_rules env r t)) \<and>
     (\<exists>out err. run env (check_cmd env) = Exited 0 out err)"
proof -
  have ne: "test_cmd env \<noteq> check_cmd env" using cmds_distinct [of env] by simp
  show ?thesis
    using ne by (cases "run env (check_cmd env)") (simp_all add: commands_run)
qed

text \<open>
  C7. Whenever the validator runs \<open>promtool check rules\<close> and that run exits with a
  status other than zero, the validator returns a failing verdict whose log is the
  syntax-phase heading followed by the stdout and the stderr of that run and nothing
  else, the only command it has run is the check, and \<open>promtool test rules\<close> is not among
  the commands it ran.
\<close>

theorem check_failure_skips_tests:
  assumes "check_cmd env \<in> set (snd (validate_prometheus_rules env rule_yaml test_yaml))"
      and "run env (check_cmd env) = Exited rc out err"
      and "rc \<noteq> 0"
  shows "validate_prometheus_rules env rule_yaml test_yaml =
           ((False, cross_mark @ '' Syntax Check: FAILED'' @ nl @ nl @ ''STDOUT:'' @ nl @ out
                      @ nl @ nl @ ''STDERR:'' @ nl @ err),
            [check_cmd env])
         \<and> test_cmd env \<notin> set (snd (validate_prometheus_rules env rule_yaml test_yaml))"
proof -
  from assms(1) have w:
    "write_file env (rule_path env) rule_yaml = None"
    "write_file env (test_path env) test_yaml = None"
    by (simp_all add: invoked_check_iff)
  have "validate_prometheus_rules env rule_yaml test_yaml =
          ((False, check_failed_msg out err), [check_cmd env])"
    using w assms(2,3) by (simp add: validate_prometheus_rules_def)
  then show ?thesis
    using cmds_distinct [of env] by (simp add: check_failed_msg_def)
qed

theorem check_failure_skips_tests_witness:
  "check_cmd env_check_fails
     \<in> set (snd (validate_prometheus_rules env_check_fails (JStr ''r'') (JStr ''t'')))
   \<and> run env_check_fails (check_cmd env_check_fails) = Exited 1 ''out'' ''err''
   \<and> (1::int) \<noteq> 0
   \<and> validate_prometheus_rules env_check_fails (JStr ''r'') (JStr ''t'') =
        ((False, cross_mark @ '' Syntax Check: FAILED'' @ nl @ nl @ ''STDOUT:'' @ nl @ ''out''
                   @ nl @ nl @ ''STDERR:'' @ nl @ ''err''),
         [check_cmd env_check_fails])
   \<and> test_cmd env_check_fails
        \<notin> set (snd (validate_prometheus_rules env_check_fails (JStr ''r'') (JStr ''t'')))"
proof -
  have a: "check_cmd env_check_fails
             \<in> set (snd (validate_prometheus_rules env_check_fails (JStr ''r'') (JStr ''t'')))"
    by (simp add: invoked_check_iff write_file_def env_check_fails_def)
  have b: "run env_check_fails (check_cmd env_check_fails) = Exited 1 ''out'' ''err''"
    by (simp add: env_check_fails_def)
  have c: "(1::int) \<noteq> 0" by simp
  from check_failure_skips_tests [OF a b c] a b c show ?thesis by blast
qed

text \<open>
  C8. For every pair of inputs, once the checker is started: a timeout of the syntax
  run, a missing executable at the syntax run, a timeout of the test run and a missing
  executable at the test run each make the validator return a failing verdict (the
  function returns a pair in every case, no exception leaves it), and the four
  diagnostic texts are pairwise different.
\<close>

theorem timeout_and_absence_are_failing_verdicts:
  assumes "check_cmd env \<in> set (snd (validate_prometheus_rules env rule_yaml test_yaml))"
  shows "(run env (check_cmd env) = TimeoutExpired \<longrightarrow>
            fst (validate_prometheus_rules env rule_yaml test_yaml)
              = (False, syntax_timeout_msg))
       \<and> (run env (check_cmd env) = FileNotFoundError m \<longrightarrow>
            fst (validate_prometheus_rules env rule_yaml test_yaml) = (False, not_found_msg))
       \<and> (test_cmd env \<in> set (snd (validate_prometheus_rules env rule_yaml test_yaml))
            \<and> run env (test_cmd env) = TimeoutExpired \<longrightarrow>
            fst (validate_prometheus_rules env rule_yaml test_yaml) = (False, test_timeout_msg))
       \<and> (test_cmd env \<in> set (snd (validate_prometheus_rules env rule_yaml test_yaml))
            \<and> run env (test_cmd env) = FileNotFoundError m \<longrightarrow>
            fst (validate_prometheus_rules env rule_yaml test_yaml) = (False, test_error_msg m))
       \<and> distinct [syntax_timeout_msg, not_found_msg, test_timeout_msg, test_error_msg m]"
proof -
  from assms have w:
    "write_file env (rule_path env) rule_yaml = None"
    "write_file env (test_path env) test_yaml = None"
    by (simp_all add: invoked_check_iff)
  have 1: "run env (check_cmd env) = TimeoutExpired \<longrightarrow>
            fst (validate_prometheus_rules env rule_yaml test_yaml)
              = (False, syntax_timeout_msg)"
    using w by (simp add: validate_prometheus_rules_def syntax_timeout_msg_def)
  have 2: "run env (check_cmd env) = FileNotFoundError m \<longrightarrow>
            fst (validate_prometheus_rules env rule_yaml test_yaml) = (False, not_found_msg)"
    using w by (simp add: validate_prometheus_rules_def not_found_msg_def)
  have 3: "test_cmd env \<in> set (snd (validate_prometheus_rules env rule_yaml test_yaml))
            \<and> run env (test_cmd env) = TimeoutExpired \<longrightarrow>
            fst (validate_prometheus_rules env rule_yaml test_yaml) = (False, test_timeout_msg)"
  proof
    assume a: "test_cmd env \<in> set (snd (validate_prometheus_rules env rule_yaml test_yaml))
            \<and> run env (test_cmd env) = TimeoutExpired"
    then obtain out err where "run env (check_cmd env) = Exited 0 out err"
      by (auto simp add: invoked_test_iff)
    with w a show "fst (validate_prometheus_rules env rule_yaml test_yaml)
                     = (False, test_timeout_msg)"
      by (simp add: validate_prometheus_rules_def run_tests_def test_timeout_msg_def)
  qed
  have 4: "test_cmd env \<in> set (snd (validate_prometheus_rules env rule_yaml test_yaml))
            \<and> run env (test_cmd env) = FileNotFoundError m \<longrightarrow>
            fst (validate_prometheus_rules env rule_yaml test_yaml) = (False, test_error_msg m)"
  proof
    assume a: "test_cmd env \<in> set (snd (validate_prometheus_rules env rule_yaml test_yaml))
            \<and> run env (test_cmd env) = FileNotFoundError m"
    then obtain out err where "run env (check_cmd env) = Exited 0 out err"
      by (auto simp add: invoked_test_iff)
    with w a show "fst (validate_prometheus_rules env rule_yaml test_yaml)
                     = (False, test_error_msg m)"
      by (simp add: validate_prometheus_rules_def run_tests_def test_error_msg_def)
  qed
  have 5: "distinct [syntax_timeout_msg, not_found_msg, test_timeout_msg, test_error_msg m]"
    by (simp add: syntax_timeout_msg_def not_found_msg_def test_timeout_msg_def
          test_error_msg_def cross_mark_def)
  show ?thesis by (intro conjI 1 2 3 4 5)
qed

lemma env_with_invoked:
  "check_cmd (env_with f) \<in> set (snd (validate_prometheus_rules (env_with f) (JStr a) (JStr b)))"
  by (simp add: invoked_check_iff write_file_def env_with_def)

lemma env_with_test_invoked:
  "test_cmd (env_with (check_ok_then r))
     \<in> set (snd (validate_prometheus_rules (env_with (check_ok_then r)) (JStr a) (JStr b)))"
  by (simp add: invoked_test_iff env_with_invoked)
     (simp add: env_with_def check_cmd_def check_ok_then_def)

theorem timeout_and_absence_are_failing_verdicts_witness:
  "fst (validate_prometheus_rules (env_with (\<lambda>argv. TimeoutExpired)) (JStr ''r'') (JStr ''t''))
     = (False, syntax_timeout_msg)
   \<and> fst (validate_prometheus_rules (env_with (\<lambda>argv. FileNotFoundError ''gone''))
            (JStr ''r'') (JStr ''t''))
     = (False, not_found_msg)
   \<and> fst (validate_prometheus_rules (env_with (check_ok_then TimeoutExpired))
            (JStr ''r'') (JStr ''t''))
     = (False, test_timeout_msg)
   \<and> fst (validate_prometheus_rules (env_with (check_ok_then (FileNotFoundError ''gone'')))
            (JStr ''r'') (JStr ''t''))
     = (False, test_error_msg ''gone'')"
proof -
  have r1: "run (env_with (\<lambda>argv. TimeoutExpired)) (check_cmd (env_with (\<lambda>argv. TimeoutExpired)))
              = TimeoutExpired"
    by (simp add: env_with_def)
  have r2: "run (env_with (\<lambda>argv. FileNotFoundError ''gone''))
              (check_cmd (env_with (\<lambda>argv. FileNotFoundError ''gone'')))
              = FileNotFoundError ''gone''"
    by (simp add: env_with_def)
  have r3: "run (env_with (check_ok_then TimeoutExpired))
              (test_cmd (env_with (check_ok_then TimeoutExpired))) = TimeoutExpired"
    by (simp add: env_with_def test_cmd_def check_ok_then_def)
  have r4: "run (env_with (check_ok_then (FileNotFoundError ''gone'')))
              (test_cmd (env_with (check_ok_then (FileNotFoundError ''gone''))))
              = FileNotFoundError ''gone''"
    by (simp add: env_with_def test_cmd_def check_ok_then_def)
  note t1 = timeout_and_absence_are_failing_verdicts
            [OF env_with_invoked, of "\<lambda>argv. TimeoutExpired" "''r''" "''t''" "''gone''"]
  note t2 = timeout_and_absence_are_failing_verdicts
            [OF env_with_invoked, of "\<lambda>argv. FileNotFoundError ''gone''" "''r''" "''t''"
               "''gone''"]
  note t3 = timeout_and_absence_are_failing_verdicts
            [OF env_with_invoked, of "check_ok_then TimeoutExpired" "''r''" "''t''" "''gone''"]
  note t4 = timeout_and_absence_are_failing_verdicts
            [OF env_with_invoked, of "check_ok_then (FileNotFoundError ''gone'')" "''r''" "''t''"
               "''gone''"]
  have c1: "fst (validate_prometheus_rules (env_with (\<lambda>argv. TimeoutExpired))
                   (JStr ''r'') (JStr ''t'')) = (False, syntax_timeout_msg)"
    using t1 [THEN conjunct1] r1 by (rule mp)
  have c2: "fst (validate_prometheus_rules (env_with (\<lambda>argv. FileNotFoundError ''gone''))
                   (JStr ''r'') (JStr ''t'')) = (False, not_found_msg)"
    using t2 [THEN conjunct2, THEN conjunct1] r2 by (rule mp)
  have c3: "fst (validate_prometheus_rules (env_with (check_ok_then TimeoutExpired))
                   (JStr ''r'') (JStr ''t'')) = (False, test_timeout_msg)"
    using t3 [THEN conjunct2, THEN conjunct2, THEN conjunct1]
          conjI [OF env_with_test_invoked r3]
    by (rule mp)
  have c4: "fst (validate_prometheus_rules (env_with (check_ok_then (FileNotFoundError ''gone'')))
                   (JStr ''r'') (JStr ''t'')) = (False, test_error_msg ''gone'')"
    using t4 [THEN conjunct2, THEN conjunct2, THEN conjunct2, THEN conjunct1]
          conjI [OF env_with_test_invoked r4]
    by (rule mp)
  show ?thesis by (intro conjI c1 c2 c3 c4)
qed

subsection \<open>Dashboard validator: required top-level fields\<close>

lemma required_errors_are_spec_violations:
  "concat (map (required_field_error d) required_fields) = spec_top_level_violations d"
  by (simp add: required_fields_def spec_top_level_violations_def spec_field_violation_def
        field_missing_def field_mistyped_def split: option.splits)

lemma spec_field_violation_empty_iff:
  "spec_field_violation d f ty = [] \<longleftrightarrow> \<not> field_missing d f \<and> \<not> field_mistyped d f ty"
  by (simp add: spec_field_violation_def field_missing_def field_mistyped_def
        split: option.splits)

text \<open>
  C9. When \<open>title\<close> or \<open>panels\<close> is missing or has the wrong type, the validator
  returns at once a failing verdict whose log is the schema heading followed by one
  line for each such violation, \<open>title\<close> first; the verdict is fixed by the presence
  and the types of the two fields alone, so nothing inside the panels is looked at (and
  no error of a panel-level check can arise).
\<close>

theorem top_level_violation_fails_immediately:
  assumes "field_missing d ''title'' \<or> field_mistyped d ''title'' ''str''
           \<or> field_missing d ''panels'' \<or> field_mistyped d ''panels'' ''list''"
  shows "validate_grafana_dashboard d =
           Inr (False, cross_mark @ '' Dashboard Schema Validation: FAILED'' @ nl @ nl
                         @ join nl (map bullet_line (spec_top_level_violations d)))"
proof -
  have ne: "spec_top_level_violations d \<noteq> []"
    using assms
    by (simp add: spec_top_level_violations_def spec_field_violation_empty_iff)
  show ?thesis
    unfolding validate_grafana_dashboard_def Let_def required_errors_are_spec_violations
    using ne by simp
qed

theorem top_level_violation_fails_immediately_witness:
  "(field_missing [(''title'', JInt 3)] ''title''
      \<or> field_mistyped [(''title'', JInt 3)] ''title'' ''str''
      \<or> field_missing [(''title'', JInt 3)] ''panels''
      \<or> field_mistyped [(''title'', JInt 3)] ''panels'' ''list'')
   \<and> validate_grafana_dashboard [(''title'', JInt 3)] =
         Inr (False, cross_mark @ '' Dashboard Schema Validation: FAILED'' @ nl @ nl
               @ ''  '' @ bullet @ '' Field '' @ quoted ''title'' @ '' should be str, got int''
               @ nl
               @ ''  '' @ bullet @ '' Missing required field: '' @ quoted ''panels'')"
proof -
  have h: "field_missing [(''title'', JInt 3)] ''title''
      \<or> field_mistyped [(''title'', JInt 3)] ''title'' ''str''
      \<or> field_missing [(''title'', JInt 3)] ''panels''
      \<or> field_mistyped [(''title'', JInt 3)] ''panels'' ''list''"
    by (simp add: field_missing_def field_mistyped_def)
  have v: "spec_top_level_violations [(''title'', JInt 3)] =
             [''Field '' @ quoted ''title'' @ '' should be str, got int'',
              ''Missing required field: '' @ quoted ''panels'']"
    by (simp add: spec_top_level_violations_def spec_field_violation_def field_missing_def
          field_mistyped_def)
  show ?thesis
    using top_level_violation_fails_immediately [OF h] h
    by (simp add: v bullet_line_def)
qed

subsection \<open>Dashboard validator: panels and targets\<close>

lemma ebind_Inr_iff: "ebind m f = Inr y \<longleftrightarrow> (\<exists>x. m = Inr x \<and> f x = Inr y)"
  by (cases m) (simp_all add: ebind_def)

lemma map_of_key: "map_of kvs k = Some v \<Longrightarrow> k \<in> set (map fst kvs)"
  by (induction kvs) (auto split: if_splits)

lemma check_target_lacking:
  assumes "check_target i j t = Inr es" and "lacks_query t" and "is_object t"
  shows "es \<noteq> []"
proof -
  from assms(3) obtain kvs where t: "t = JObj kvs"
    by (cases t) (simp_all add: is_object_def)
  from assms(2) t have k: "''expr'' \<notin> set (map fst kvs)" "''query'' \<notin> set (map fst kvs)"
    by (simp_all add: lacks_query_def has_field_def)
  from assms(1) show ?thesis
    unfolding t check_target_def using k by (auto simp add: ebind_def)
qed

lemma check_targets_lacking:
  "check_targets i j ts = Inr es \<Longrightarrow> t \<in> set ts \<Longrightarrow> lacks_query t \<Longrightarrow> is_object t
     \<Longrightarrow> es \<noteq> []"
proof (induction ts arbitrary: j es)
  case Nil
  then show ?case by simp
next
  case (Cons a ts)
  from Cons.prems(1) obtain e1 e2 where
    a: "check_target i j a = Inr e1" and r: "check_targets i (Suc j) ts = Inr e2"
    and es: "es = e1 @ e2"
    by (auto simp add: ebind_Inr_iff)
  show ?case
  proof (cases "t = a")
    case True
    with a Cons.prems have "e1 \<noteq> []" by (simp add: check_target_lacking)
    with es show ?thesis by simp
  next
    case False
    with Cons.prems have "t \<in> set ts" by simp
    with Cons.IH [OF r] Cons.prems have "e2 \<noteq> []" by simp
    with es show ?thesis by simp
  qed
qed

lemma check_panel_parts:
  assumes "check_panel i p = Inr es"
  shows "\<exists>e_head e_targets. es = e_head @ e_targets \<and> targets_errors i p = Inr e_targets"
proof -
  from assms obtain e_id e_type e_title e_grid e_targets where
    es: "es = e_id @ e_type @ e_title @ e_grid @ e_targets" and
    tg: "targets_errors i p = Inr e_targets"
    unfolding check_panel_def by (auto simp add: ebind_Inr_iff)
  have "es = (e_id @ e_type @ e_title @ e_grid) @ e_targets" using es by simp
  with tg show ?thesis by blast
qed

lemma targets_errors_list:
  assumes "map_of kvs ''targets'' = Some (JArr ts)"
  shows "targets_errors i (JObj kvs) =
           (if ts = []
            then Inr [''Panel '' @ str_nat i @ '': No targets (queries) defined'']
            else check_targets i 0 ts)"
proof -
  have key: "''targets'' \<in> fst ` set kvs" using map_of_key [OF assms] by simp
  show ?thesis
    unfolding targets_errors_def by (simp add: ebind_def key assms)
qed

lemma check_panel_empty_targets:
  assumes "check_panel i p = Inr es" and "has_empty_targets p"
  shows "es \<noteq> []"
proof -
  from assms(2) obtain kvs where p: "p = JObj kvs" and m: "map_of kvs ''targets'' = Some (JArr [])"
    by (cases p) (simp_all add: has_empty_targets_def)
  from check_panel_parts [OF assms(1)] obtain e_head e_targets where
    es: "es = e_head @ e_targets" and tg: "targets_errors i p = Inr e_targets"
    by blast
  from tg have "e_targets \<noteq> []"
    unfolding p targets_errors_list [OF m] by auto
  with es show ?thesis by simp
qed

lemma panel_targets_mem:
  assumes "t \<in> set (panel_targets p)"
  shows "\<exists>kvs. p = JObj kvs \<and> map_of kvs ''targets'' = Some (JArr (panel_targets p))"
proof -
  from assms obtain kvs where p: "p = JObj kvs"
    by (cases p) (simp_all add: panel_targets_def)
  show ?thesis
  proof (cases "map_of kvs ''targets''")
    case None
    with assms p show ?thesis by (simp add: panel_targets_def)
  next
    case (Some v)
    with assms p have "v = JArr (panel_targets p)"
      by (cases v) (simp_all add: panel_targets_def)
    with Some p show ?thesis by simp
  qed
qed

lemma check_panel_lacking_target:
  assumes "check_panel i p = Inr es" and "t \<in> set (panel_targets p)"
      and "lacks_query t" and "is_object t"
  shows "es \<noteq> []"
proof -
  from panel_targets_mem [OF assms(2)] obtain kvs where p: "p = JObj kvs"
      and m: "map_of kvs ''targets'' = Some (JArr (panel_targets p))"
    by blast
  from assms(2) have ne: "panel_targets p \<noteq> []" by auto
  from check_panel_parts [OF assms(1)] obtain e_head e_targets where
    es: "es = e_head @ e_targets" and tg: "targets_errors i p = Inr e_targets"
    by blast
  from tg have "targets_errors i (JObj kvs) = Inr e_targets" using p by simp
  with ne have "check_targets i 0 (panel_targets p) = Inr e_targets"
    unfolding targets_errors_list [OF m] by simp
  from check_targets_lacking [OF this assms(2,3,4)] have "e_targets \<noteq> []" .
  with es show ?thesis by simp
qed

lemma check_panels_nonempty:
  "check_panels i ps = Inr es \<Longrightarrow> p \<in> set ps
     \<Longrightarrow> (\<And>k e. check_panel k p = Inr e \<Longrightarrow> e \<noteq> []) \<Longrightarrow> es \<noteq> []"
proof (induction ps arbitrary: i es)
  case Nil
  then show ?case by simp
next
  case (Cons a ps)
  from Cons.prems(1) obtain e1 e2 where
    a: "check_panel i a = Inr e1" and r: "check_panels (Suc i) ps = Inr e2"
    and es: "es = e1 @ e2"
    by (auto simp add: ebind_Inr_iff)
  show ?case
  proof (cases "p = a")
    case True
    with a Cons.prems(3) have "e1 \<noteq> []" by blast
    with es show ?thesis by simp
  next
    case False
    with Cons.prems have "p \<in> set ps" by simp
    from Cons.IH [OF r this Cons.prems(3)] have "e2 \<noteq> []" .
    with es show ?thesis by simp
  qed
qed

text \<open>On panels of the expected shape the panel checks run to their end.\<close>

lemma check_grid_object: "\<exists>es. check_grid i (JObj g) fs = Inr es"
  by (induction fs) (auto simp add: ebind_def)

lemma check_target_object: "\<exists>es. check_target i j (JObj kvs) = Inr es"
  by (simp add: check_target_def ebind_def)

lemma check_targets_objects: "list_all is_object ts \<Longrightarrow> \<exists>es. check_targets i j ts = Inr es"
proof (induction ts arbitrary: j)
  case Nil
  then show ?case by simp
next
  case (Cons a ts)
  from Cons.prems obtain kvs where a: "a = JObj kvs"
    by (cases a) (simp_all add: is_object_def)
  from check_target_object obtain e1 where e1: "check_target i j (JObj kvs) = Inr e1" by blast
  from Cons.IH Cons.prems obtain e2 where e2: "check_targets i (Suc j) ts = Inr e2"
    by auto
  show ?case using a e1 e2 by (simp add: ebind_def)
qed

lemma map_of_present: "k \<in> fst ` set kvs \<Longrightarrow> \<exists>v. map_of kvs k = Some v"
  by (cases "map_of kvs k") (auto simp add: map_of_eq_None_iff)

lemma grid_errors_shaped:
  assumes "panel_shaped (JObj kvs)"
  shows "\<exists>es. grid_errors i (JObj kvs) = Inr es"
proof (cases "''gridPos'' \<in> fst ` set kvs")
  case False
  then show ?thesis by (simp add: grid_errors_def ebind_def)
next
  case True
  from map_of_present [OF True] obtain g where g: "map_of kvs ''gridPos'' = Some g" by blast
  with assms have "is_object g" by (simp add: panel_shaped_def)
  then obtain gk where gk: "g = JObj gk" by (cases g) (simp_all add: is_object_def)
  from check_grid_object obtain es where
    "check_grid i (JObj gk) [''x'', ''y'', ''w'', ''h''] = Inr es" by blast
  with True g gk show ?thesis
    unfolding grid_errors_def by (simp add: ebind_def)
qed

lemma targets_errors_shaped:
  assumes "panel_shaped (JObj kvs)"
  shows "\<exists>es. targets_errors i (JObj kvs) = Inr es"
proof (cases "''targets'' \<in> fst ` set kvs")
  case False
  then show ?thesis by (simp add: targets_errors_def ebind_def)
next
  case True
  from map_of_present [OF True] obtain v where v: "map_of kvs ''targets'' = Some v" by blast
  show ?thesis
  proof (cases "\<exists>ts. v = JArr ts")
    case False
    with True v show ?thesis
      unfolding targets_errors_def by (cases v) (simp_all add: ebind_def)
  next
    case True
    then obtain ts where ts: "v = JArr ts" by blast
    with v assms have "list_all is_object ts" by (simp add: panel_shaped_def)
    from check_targets_objects [OF this] obtain es where
      "check_targets i 0 ts = Inr es" by blast
    with v ts show ?thesis
      unfolding targets_errors_list [OF v [unfolded ts]] by simp
  qed
qed

lemma check_panel_shaped:
  assumes "panel_shaped p"
  shows "\<exists>es. check_panel i p = Inr es"
proof -
  from assms obtain kvs where p: "p = JObj kvs"
    by (cases p) (simp_all add: panel_shaped_def)
  from grid_errors_shaped [OF assms [unfolded p]] obtain eg where
    eg: "grid_errors i (JObj kvs) = Inr eg" by blast
  from targets_errors_shaped [OF assms [unfolded p]] obtain et where
    et: "targets_errors i (JObj kvs) = Inr et" by blast
  show ?thesis
    unfolding p check_panel_def by (simp add: eg et panel_missing_def ebind_def)
qed

lemma check_panels_shaped:
  "list_all panel_shaped ps \<Longrightarrow> \<exists>es. check_panels i ps = Inr es"
proof (induction ps arbitrary: i)
  case Nil
  then show ?case by simp
next
  case (Cons a ps)
  from Cons.prems check_panel_shaped obtain e1 where e1: "check_panel i a = Inr e1"
    by auto
  from Cons.IH Cons.prems obtain e2 where e2: "check_panels (Suc i) ps = Inr e2"
    by auto
  show ?case by (simp add: e1 e2 ebind_def)
qed

text \<open>The pass over the queries asks every target for \<open>.get\<close>, which only an object has.\<close>

lemma target_issues_object: "target_issues i j t = Inr qs \<Longrightarrow> is_object t"
  by (cases t) (simp_all add: target_issues_def ebind_def is_object_def)

lemma targets_issues_objects:
  "targets_issues i j ts = Inr qs \<Longrightarrow> t \<in> set ts \<Longrightarrow> is_object t"
proof (induction ts arbitrary: j qs)
  case Nil
  then show ?case by simp
next
  case (Cons a ts)
  from Cons.prems(1) obtain q1 q2 where
    a: "target_issues i j a = Inr q1" and r: "targets_issues i (Suc j) ts = Inr q2"
    by (auto simp add: ebind_Inr_iff)
  show ?case
  proof (cases "t = a")
    case True
    with a show ?thesis by (simp add: target_issues_object)
  next
    case False
    with Cons.prems have "t \<in> set ts" by simp
    from Cons.IH [OF r this] show ?thesis .
  qed
qed

lemma panel_issues_objects:
  assumes "panel_issues i p = Inr qs" and "t \<in> set (panel_targets p)"
  shows "is_object t"
proof -
  from panel_targets_mem [OF assms(2)] obtain kvs where p: "p = JObj kvs"
      and m: "map_of kvs ''targets'' = Some (JArr (panel_targets p))"
    by blast
  from assms(1) have "targets_issues i 0 (panel_targets p) = Inr qs"
    unfolding p panel_issues_def using m [unfolded p] by (simp add: ebind_def)
  from targets_issues_objects [OF this assms(2)] show ?thesis .
qed

lemma panels_issues_objects:
  "panels_issues i ps = Inr qs \<Longrightarrow> p \<in> set ps \<Longrightarrow> t \<in> set (panel_targets p)
     \<Longrightarrow> is_object t"
proof (induction ps arbitrary: i qs)
  case Nil
  then show ?case by simp
next
  case (Cons a ps)
  from Cons.prems(1) obtain q1 q2 where
    a: "panel_issues i a = Inr q1" and r: "panels_issues (Suc i) ps = Inr q2"
    by (auto simp add: ebind_Inr_iff)
  show ?case
  proof (cases "p = a")
    case True
    with a Cons.prems(3) show ?thesis by (simp add: panel_issues_objects)
  next
    case False
    with Cons.prems have "p \<in> set ps" by simp
    from Cons.IH [OF r this Cons.prems(3)] show ?thesis .
  qed
qed

lemma advisory_part_true: "advisory_part d ps = Inr (v, lg) \<Longrightarrow> v"
  unfolding advisory_part_def Let_def by (auto simp add: ebind_Inr_iff)

lemma advisory_part_objects:
  assumes "advisory_part d ps = Inr r" and "p \<in> set ps" and "t \<in> set (panel_targets p)"
  shows "is_object t"
proof -
  from assms(1) obtain qs where "panels_issues 0 ps = Inr qs"
    unfolding advisory_part_def Let_def by (auto simp add: ebind_Inr_iff)
  from panels_issues_objects [OF this assms(2,3)] show ?thesis .
qed

lemma validate_after_required_fields:
  "validate_grafana_dashboard d =
     (if spec_top_level_violations d \<noteq> []
      then Inr (False, cross_mark @ '' Dashboard Schema Validation: FAILED'' @ nl @ nl
                         @ join nl (map bullet_line (spec_top_level_violations d)))
      else panels_part d)"
  unfolding validate_grafana_dashboard_def Let_def required_errors_are_spec_violations
  by (rule refl)

lemma panels_is_list:
  assumes "spec_top_level_violations d = []"
  shows "map_of d ''panels'' = Some (JArr (dashboard_panels d))"
proof -
  from assms have a: "\<not> field_missing d ''panels''" and b: "\<not> field_mistyped d ''panels'' ''list''"
    by (simp_all add: spec_top_level_violations_def spec_field_violation_empty_iff)
  from a obtain v where v: "map_of d ''panels'' = Some v"
    by (auto simp add: field_missing_def)
  with b have "type_name v = ''list''" by (simp add: field_mistyped_def)
  then obtain ps where "v = JArr ps" by (cases v) simp_all
  with v show ?thesis by (simp add: dashboard_panels_def)
qed

lemma panels_part_cases:
  assumes "map_of d ''panels'' = Some (JArr ps)"
  shows "(\<exists>e. check_panels 0 ps = Inl e \<and> panels_part d = Inl e)
       \<or> (\<exists>pe. check_panels 0 ps = Inr pe \<and> (ps = [] \<or> pe \<noteq> [])
                \<and> (\<exists>lg. panels_part d = Inr (False, lg)))
       \<or> (check_panels 0 ps = Inr [] \<and> ps \<noteq> [] \<and> panels_part d = advisory_part d ps)"
proof (cases "check_panels 0 ps")
  case (Inl e)
  then show ?thesis by (simp add: panels_part_def assms ebind_def)
next
  case (Inr pe)
  show ?thesis
  proof (cases "ps = [] \<or> pe \<noteq> []")
    case True
    with Inr have "\<exists>lg. panels_part d = Inr (False, lg)"
      by (auto simp add: panels_part_def assms ebind_def)
    with Inr True show ?thesis by blast
  next
    case False
    with Inr have "panels_part d = advisory_part d ps"
      by (simp add: panels_part_def assms ebind_def)
    with Inr False show ?thesis by simp
  qed
qed

text \<open>
  C1, as the code has it. A dashboard with no panels, with a panel whose \<open>targets\<close>
  field is there and empty, or with a panel one of whose targets carries neither
  \<open>expr\<close> nor \<open>query\<close>, never gets a passing verdict; and it gets a failing verdict
  whenever its panels, their \<open>gridPos\<close> and their targets are objects.
\<close>

theorem invalid_dashboard_rejected:
  assumes "dashboard_panels d = []
           \<or> list_ex has_empty_targets (dashboard_panels d)
           \<or> list_ex has_target_lacking_query (dashboard_panels d)"
  shows "(\<forall>lg. validate_grafana_dashboard d \<noteq> Inr (True, lg))
       \<and> (well_shaped d \<longrightarrow> (\<exists>lg. validate_grafana_dashboard d = Inr (False, lg)))"
proof (cases "spec_top_level_violations d \<noteq> []")
  case True
  then show ?thesis by (simp add: validate_after_required_fields)
next
  case False
  then have nov: "spec_top_level_violations d = []" by simp
  then have v: "validate_grafana_dashboard d = panels_part d"
    by (simp add: validate_after_required_fields)
  let ?ps = "dashboard_panels d"
  note cases3 = panels_part_cases [OF panels_is_list [OF nov]]
  have shaped: "well_shaped d \<Longrightarrow> \<exists>es. check_panels 0 ?ps = Inr es"
    unfolding well_shaped_def by (rule check_panels_shaped)
  have errs: "\<And>pe. check_panels 0 ?ps = Inr pe \<Longrightarrow> ?ps \<noteq> [] \<Longrightarrow> well_shaped d
                \<Longrightarrow> pe \<noteq> []"
  proof -
    fix pe assume pe: "check_panels 0 ?ps = Inr pe" and ne: "?ps \<noteq> []" and ws: "well_shaped d"
    from assms ne consider
        p where "p \<in> set ?ps" "has_empty_targets p"
      | p t where "p \<in> set ?ps" "t \<in> set (panel_targets p)" "lacks_query t"
      by (auto simp add: list_ex_iff has_target_lacking_query_def)
    then show "pe \<noteq> []"
    proof cases
      case 1
      from check_panels_nonempty [OF pe 1(1)] check_panel_empty_targets 1(2)
      show ?thesis by blast
    next
      case 2
      from ws 2(1) have "panel_shaped p" by (simp add: well_shaped_def list_all_iff)
      with panel_targets_mem [OF 2(2)] 2(2) have "is_object t"
        by (auto simp add: panel_shaped_def list_all_iff)
      with check_panels_nonempty [OF pe 2(1)] check_panel_lacking_target 2(2,3)
      show ?thesis by blast
    qed
  qed
  have noerrs: "check_panels 0 ?ps = Inr [] \<Longrightarrow> ?ps \<noteq> []
                  \<Longrightarrow> \<exists>p t. p \<in> set ?ps \<and> t \<in> set (panel_targets p) \<and> \<not> is_object t"
  proof -
    assume pe: "check_panels 0 ?ps = Inr []" and ne: "?ps \<noteq> []"
    from assms ne consider
        p where "p \<in> set ?ps" "has_empty_targets p"
      | p t where "p \<in> set ?ps" "t \<in> set (panel_targets p)" "lacks_query t"
      by (auto simp add: list_ex_iff has_target_lacking_query_def)
    then show ?thesis
    proof cases
      case 1
      from check_panels_nonempty [OF pe 1(1)] check_panel_empty_targets 1(2)
      show ?thesis by blast
    next
      case 2
      from check_panels_nonempty [OF pe 2(1)] check_panel_lacking_target 2(2,3)
      have "\<not> is_object t" by blast
      with 2 show ?thesis by blast
    qed
  qed
  from cases3 consider
      e where "check_panels 0 ?ps = Inl e" "panels_part d = Inl e"
    | lg where "panels_part d = Inr (False, lg)"
    | "check_panels 0 ?ps = Inr []" "?ps \<noteq> []" "panels_part d = advisory_part d ?ps"
    by blast
  then show ?thesis
  proof cases
    case 1
    with v shaped show ?thesis by auto
  next
    case 2
    with v show ?thesis by simp
  next
    case 3
    from noerrs [OF 3(1,2)] obtain p t where
      pt: "p \<in> set ?ps" "t \<in> set (panel_targets p)" "\<not> is_object t" by blast
    have raised: "\<And>r. advisory_part d ?ps \<noteq> Inr r"
      using advisory_part_objects pt by blast
    have "\<not> well_shaped d" using errs [OF 3(1,2)] by blast
    with v 3(3) raised show ?thesis by simp
  qed
qed

theorem invalid_dashboard_rejected_witness:
  "list_ex has_empty_targets (dashboard_panels empty_targets_dashboard)
   \<and> well_shaped empty_targets_dashboard
   \<and> map_sum id fst (validate_grafana_dashboard empty_targets_dashboard) = Inr False"
proof -
  have h: "list_ex has_empty_targets (dashboard_panels empty_targets_dashboard)"
    by code_simp
  have w: "well_shaped empty_targets_dashboard"
    by code_simp
  from invalid_dashboard_rejected [of empty_targets_dashboard] h w
  obtain lg where "validate_grafana_dashboard empty_targets_dashboard = Inr (False, lg)"
    by blast
  with h w show ?thesis by simp
qed

text \<open>
  The counterexample to C1 as stated: the only panel of this dashboard has no targets
  (it has no \<open>targets\<close> field), and the dashboard is accepted.
\<close>

theorem panel_without_targets_accepted:
  "list_ex has_no_targets (dashboard_panels no_targets_dashboard)
   \<and> map_sum id fst (validate_grafana_dashboard no_targets_dashboard) = Inr True"
  by code_simp

subsection \<open>Dashboard validator: the advisory part\<close>

text \<open>Recommendations and query issues only extend the log: whatever the last stretch
  returns is a pass.\<close>

lemma warnings_never_fail:
  assumes "spec_top_level_violations d = []"
      and "check_panels 0 (dashboard_panels d) = Inr []" and "dashboard_panels d \<noteq> []"
  shows "validate_grafana_dashboard d \<noteq> Inr (False, lg)"
proof -
  from panels_part_cases [OF panels_is_list [OF assms(1)]] assms(2,3)
  have "panels_part d = advisory_part d (dashboard_panels d)" by auto
  with assms(1) have "validate_grafana_dashboard d = advisory_part d (dashboard_panels d)"
    by (simp add: validate_after_required_fields)
  then show ?thesis using advisory_part_true [of d "dashboard_panels d" False lg] by auto
qed

lemma minimal_dashboard_accepted:
  "validate_grafana_dashboard minimal_dashboard = Inr (True, minimal_log)"
  by code_simp

text \<open>
  C10 does not hold of the code: this dashboard passes the required-field checks and
  the panel checks (no error is found), and the validator then raises a \<open>TypeError\<close>
  in the pass over the queries, because the \<open>expr\<close> of its target is the number 5.
\<close>

theorem numeric_expr_raises:
  "spec_top_level_violations numeric_expr_dashboard = []
   \<and> check_panels 0 (dashboard_panels numeric_expr_dashboard) = Inr []
   \<and> validate_grafana_dashboard numeric_expr_dashboard =
       Inl (Exn TypeError (''argument of type '' @ quoted ''int'' @ '' is not iterable''))"
  by code_simp

subsection \<open>One attempt of the translation loop\<close>

lemma tbind_cases:
  assumes "tbind m f = (evs, r)"
  obtains (raised) e where "m = (evs, Inl e)" "r = Inl e"
        | (went_on) e1 x e2 where "m = (e1, Inr x)" "f x = (e2, r)" "evs = e1 @ e2"
  using assms by (auto simp add: tbind_def split: prod.splits sum.splits)

lemma lift_eq: "lift v = (evs, r) \<longleftrightarrow> evs = [] \<and> r = v"
  by (auto simp add: lift_def)

lemma tagged_Nil [simp]: "tagged [] a"
  by (simp add: tagged_def)

lemma tagged_append [simp]: "tagged (xs @ ys) a = (tagged xs a \<and> tagged ys a)"
  by (simp add: tagged_def)

lemma tagged_mem: "tagged evs a \<Longrightarrow> ev \<in> set evs \<Longrightarrow> ev_attempt ev = a \<and> \<not> is_generate ev"
  by (simp add: tagged_def list_all_iff)

lemma notify_attempt_tagged: "notify_attempt env a x = (evs, r) \<Longrightarrow> tagged evs a"
  by (auto simp add: notify_attempt_def tagged_def split: option.splits sum.splits)

lemma notify_validation_tagged: "notify_validation env a v lg = (evs, r) \<Longrightarrow> tagged evs a"
  by (auto simp add: notify_validation_def tagged_def split: option.splits)

lemma notify_validation_returns:
  "validation_callback_returns env a v lg \<Longrightarrow> snd (notify_validation env a v lg) = Inr ()"
  by (auto simp add: notify_validation_def validation_callback_returns_def split: option.splits)

lemma quiet_Nil [simp]: "quiet []"
  by (simp add: quiet_def)

lemma quiet_append [simp]: "quiet (xs @ ys) = (quiet xs \<and> quiet ys)"
  by (simp add: quiet_def)

lemma quiet_mem: "quiet evs \<Longrightarrow> ev \<in> set evs \<Longrightarrow> is_quiet ev"
  by (simp add: quiet_def list_all_iff)

lemma unjudged_mem: "unjudged evs \<Longrightarrow> ev \<in> set evs \<Longrightarrow> is_no_verdict ev"
  by (simp add: unjudged_def list_all_iff)

lemma quiet_unjudged: "quiet evs \<Longrightarrow> unjudged evs"
proof -
  have "\<And>ev. is_quiet ev \<Longrightarrow> is_no_verdict ev"
  proof -
    fix ev show "is_quiet ev \<Longrightarrow> is_no_verdict ev" by (cases ev) simp_all
  qed
  then show "quiet evs \<Longrightarrow> unjudged evs"
    by (simp add: quiet_def unjudged_def list_all_iff)
qed

lemma notify_attempt_quiet: "notify_attempt env a x = (evs, r) \<Longrightarrow> quiet evs"
  by (auto simp add: notify_attempt_def quiet_def split: option.splits sum.splits)

lemma notify_validation_quiet: "notify_validation env a v lg = (evs, r) \<Longrightarrow> quiet evs"
  by (auto simp add: notify_validation_def quiet_def split: option.splits)

lemma query_prepare_events:
  "query_prepare env a data = (evs, r) \<Longrightarrow> quiet evs \<and> tagged evs a"
  unfolding query_prepare_def
  by (auto elim!: tbind_cases simp add: lift_eq
        dest: notify_attempt_quiet notify_attempt_tagged)

lemma dashboard_prepare_events:
  "dashboard_prepare env a data = (evs, r) \<Longrightarrow> quiet evs \<and> tagged evs a"
  unfolding dashboard_prepare_def
  by (auto elim!: tbind_cases simp add: lift_eq
        dest: notify_attempt_quiet notify_attempt_tagged)

lemma query_validate_shape:
  "query_validate env a data = (evs, r) \<Longrightarrow>
     (unjudged evs \<and> tagged evs a \<and> (\<exists>e. r = Inl e))
     \<or> (\<exists>v lg. evs = [EValidate a data, EVerdict a v lg] \<and> r = Inr (v, lg))"
  unfolding query_validate_def
  by (auto elim!: tbind_cases simp add: lift_eq unjudged_def tagged_def split: prod.splits)

lemma dashboard_validate_shape:
  assumes "dashboard_validate env a data = (evs, r)"
  shows "(unjudged evs \<and> tagged evs a \<and> (\<exists>e. r = Inl e))
       \<or> (\<exists>v lg. evs = [EValidate a data, EVerdict a v lg] \<and> r = Inr (v, lg))"
proof (cases "py_getitem data ''grafana_dashboard''")
  case (Inl e)
  with assms show ?thesis
    by (auto simp add: dashboard_validate_def tbind_def lift_def unjudged_def tagged_def)
next
  case (Inr d)
  note d = Inr
  show ?thesis
  proof (cases "\<exists>kvs. d = JObj kvs")
    case False
    with d assms show ?thesis
      by (cases d)
         (auto simp add: dashboard_validate_def tbind_def lift_def unjudged_def tagged_def)
  next
    case True
    then obtain kvs where kvs: "d = JObj kvs" by blast
    show ?thesis
    proof (cases "validate_grafana_dashboard kvs")
      case (Inl e)
      with d kvs have "dashboard_validate env a data = ([EValidate a data], Inl e)"
        by (simp add: dashboard_validate_def tbind_def lift_def)
      with assms have "evs = [EValidate a data]" "r = Inl e" by simp_all
      then show ?thesis by (simp add: unjudged_def tagged_def)
    next
      case (Inr vl)
      obtain v lg where "vl = (v, lg)" by (cases vl)
      with Inr d kvs have "dashboard_validate env a data
                             = ([EValidate a data, EVerdict a v lg], Inr (v, lg))"
        by (simp add: dashboard_validate_def tbind_def lift_def)
      with assms have "evs = [EValidate a data, EVerdict a v lg]" "r = Inr (v, lg)"
        by simp_all
      then show ?thesis by blast
    qed
  qed
qed

lemma finish_shape:
  assumes "finish env fb mr a ms text data (v, lg) = (evs, r)"
  shows "\<exists>r2. notify_validation env a v lg = (evs, r2)
           \<and> r = (case r2 of Inl e \<Rightarrow> Inl e
                   | Inr u \<Rightarrow> Inr (conclude fb mr a ms text data v lg))"
  using assms unfolding finish_def
  by (auto elim!: tbind_cases)

lemma py_json_loads_text: "py_json_loads env c = Inr (text, data) \<Longrightarrow> c = Some text"
  by (auto simp add: py_json_loads_def split: option.splits sum.splits)

text \<open>The shape of a \<open>try\<close> block: either it raises before the validator has answered,
  or the validator answers once and the rest is the \<open>on_validation\<close> callback.\<close>

lemma try_shape:
  assumes run: "tbind (call_model env a ms) (\<lambda>completion.
                tbind (lift (py_json_loads env completion)) (\<lambda>(text, data).
                tbind (prep data) (\<lambda>_.
                tbind (val data) (\<lambda>verdict.
                  finish env fb mr a ms text data verdict)))) = (evs, r)"
      and prep: "\<And>data e x. prep data = (e, x) \<Longrightarrow> quiet e \<and> tagged e a"
      and val: "\<And>data e x. val data = (e, x) \<Longrightarrow>
                  (unjudged e \<and> tagged e a \<and> (\<exists>y. x = Inl y))
                  \<or> (\<exists>v lg. e = [EValidate a data, EVerdict a v lg] \<and> x = Inr (v, lg))"
  shows "(\<exists>rest e. evs = EGenerate a ms # rest \<and> unjudged rest \<and> tagged rest a \<and> r = Inl e)
       \<or> (\<exists>text data v lg e1 e2 r2.
             complete env a ms = Inr (Some text)
           \<and> evs = EGenerate a ms # e1 @ [EValidate a data, EVerdict a v lg] @ e2
           \<and> quiet e1 \<and> tagged e1 a \<and> notify_validation env a v lg = (e2, r2)
           \<and> r = (case r2 of Inl e \<Rightarrow> Inl e
                   | Inr u \<Rightarrow> Inr (conclude fb mr a ms text data v lg)))"
  using run
proof (cases rule: tbind_cases)
  case (raised e)
  then show ?thesis by (auto simp add: call_model_def unjudged_def)
next
  case (went_on e1 completion e2)
  from went_on(1) have e1: "e1 = [EGenerate a ms]" and c: "complete env a ms = Inr completion"
    by (simp_all add: call_model_def)
  from went_on(2) show ?thesis
  proof (cases rule: tbind_cases)
    case (raised e)
    with went_on(3) e1 show ?thesis by (simp add: lift_eq unjudged_def)
  next
    case (went_on e3 td e4)
    obtain reply data where td: "td = (reply, data)" by (cases td)
    from went_on(1) td have e3: "e3 = []" and l: "py_json_loads env completion = Inr (reply, data)"
      by (simp_all add: lift_eq)
    from py_json_loads_text [OF l] c have c': "complete env a ms = Inr (Some reply)" by simp
    from went_on(2) td have
      "tbind (prep data) (\<lambda>_. tbind (val data) (\<lambda>verdict.
         finish env fb mr a ms reply data verdict)) = (e4, r)" by simp
    then show ?thesis
    proof (cases rule: tbind_cases)
      case (raised e)
      from prep [OF raised(1)] have "unjudged e4" "tagged e4 a"
        by (simp_all add: quiet_unjudged)
      with raised(2) \<open>evs = e1 @ e2\<close> \<open>e2 = e3 @ e4\<close> e1 e3 show ?thesis by simp
    next
      case (went_on e5 u e6)
      from prep [OF went_on(1)] have q5: "quiet e5" "tagged e5 a" by simp_all
      from went_on(2) show ?thesis
      proof (cases rule: tbind_cases)
        case (raised e)
        from val [OF raised(1)] have "unjudged e6" "tagged e6 a" by auto
        with q5 quiet_unjudged [of e5] have "unjudged (e5 @ e6)" "tagged (e5 @ e6) a"
          by (simp_all add: unjudged_def)
        with raised(2) \<open>evs = e1 @ e2\<close> \<open>e2 = e3 @ e4\<close> \<open>e4 = e5 @ e6\<close> e1 e3
        show ?thesis by simp
      next
        case (went_on e7 verdict e8)
        obtain v lg where vl: "verdict = (v, lg)" by (cases verdict)
        from val [OF went_on(1)] vl have e7: "e7 = [EValidate a data, EVerdict a v lg]"
          by auto
        from finish_shape [OF went_on(2) [unfolded vl]] obtain r2 where
          r2: "notify_validation env a v lg = (e8, r2)"
          and r: "r = (case r2 of Inl e \<Rightarrow> Inl e
                  | Inr u \<Rightarrow> Inr (conclude fb mr a ms reply data v lg))"
          by blast
        have "evs = EGenerate a ms # e5 @ [EValidate a data, EVerdict a v lg] @ e8"
          using \<open>evs = e1 @ e2\<close> \<open>e2 = e3 @ e4\<close> \<open>e4 = e5 @ e6\<close> \<open>e6 = e7 @ e8\<close> e1 e3 e7
          by simp
        with c' q5 r2 r show ?thesis by blast
      qed
    qed
  qed
qed

lemma query_try_shape:
  assumes "query_try env mr a ms = (evs, r)"
  shows "(\<exists>rest e. evs = EGenerate a ms # rest \<and> unjudged rest \<and> tagged rest a \<and> r = Inl e)
       \<or> (\<exists>text data v lg e1 e2 r2.
             complete env a ms = Inr (Some text)
           \<and> evs = EGenerate a ms # e1 @ [EValidate a data, EVerdict a v lg] @ e2
           \<and> quiet e1 \<and> tagged e1 a \<and> notify_validation env a v lg = (e2, r2)
           \<and> r = (case r2 of Inl e \<Rightarrow> Inl e
                   | Inr u \<Rightarrow> Inr (conclude query_feedback mr a ms text data v lg)))"
  by (rule try_shape [OF assms [unfolded query_try_def] query_prepare_events
        query_validate_shape])

lemma dashboard_try_shape:
  assumes "dashboard_try env mr a ms = (evs, r)"
  shows "(\<exists>rest e. evs = EGenerate a ms # rest \<and> unjudged rest \<and> tagged rest a \<and> r = Inl e)
       \<or> (\<exists>text data v lg e1 e2 r2.
             complete env a ms = Inr (Some text)
           \<and> evs = EGenerate a ms # e1 @ [EValidate a data, EVerdict a v lg] @ e2
           \<and> quiet e1 \<and> tagged e1 a \<and> notify_validation env a v lg = (e2, r2)
           \<and> r = (case r2 of Inl e \<Rightarrow> Inl e
                   | Inr u \<Rightarrow> Inr (conclude dashboard_feedback mr a ms text data v lg)))"
  by (rule try_shape [OF assms [unfolded dashboard_try_def] dashboard_prepare_events
        dashboard_validate_shape])

subsection \<open>The loop over the attempts\<close>

text \<open>In this subsection \<open>body\<close> is any loop body whose events are the call of the model
  for its attempt followed by events of that attempt that are no calls of the model.\<close>

lemma body_events_attempt:
  assumes "\<And>a ms. \<exists>rest. fst (body a ms) = EGenerate a ms # rest \<and> tagged rest a"
      and "ev \<in> set (fst (body a ms))"
  shows "ev_attempt ev = a"
proof -
  from assms(1) obtain rest where r: "fst (body a ms) = EGenerate a ms # rest" "tagged rest a"
    by blast
  with assms(2) tagged_mem [of rest a ev] show ?thesis by auto
qed

lemma body_generate:
  assumes "\<And>a ms. \<exists>rest. fst (body a ms) = EGenerate a ms # rest \<and> tagged rest a"
      and "EGenerate k m \<in> set (fst (body a ms))"
  shows "m = ms"
proof -
  from assms(1) obtain rest where r: "fst (body a ms) = EGenerate a ms # rest" "tagged rest a"
    by blast
  with assms(2) tagged_mem [of rest a "EGenerate k m"] show ?thesis by auto
qed

lemma body_generate_count:
  assumes "\<And>a ms. \<exists>rest. fst (body a ms) = EGenerate a ms # rest \<and> tagged rest a"
  shows "length (filter is_generate (fst (body a ms))) = 1"
proof -
  from assms obtain rest where r: "fst (body a ms) = EGenerate a ms # rest" "tagged rest a"
    by blast
  from r(2) have "filter is_generate rest = []"
    by (simp add: tagged_def list_all_iff filter_empty_conv)
  with r(1) show ?thesis by simp
qed

lemma loop_Suc:
  assumes "attempt_loop body a (Suc n) ms = (evs, res)"
  obtains (returned) "body a ms = (evs, Done res)"
        | (retried) e1 ms1 e2 where "body a ms = (e1, Retry ms1)"
            "attempt_loop body (a + 1) n ms1 = (e2, res)" "evs = e1 @ e2"
  using assms by (auto split: prod.splits step.splits)

lemma loop_count:
  assumes "\<And>a ms. \<exists>rest. fst (body a ms) = EGenerate a ms # rest \<and> tagged rest a"
  shows "length (filter is_generate (fst (attempt_loop body a n ms))) \<le> n"
proof (induction n arbitrary: a ms)
  case 0
  show ?case by simp
next
  case (Suc n)
  obtain evs res where l: "attempt_loop body a (Suc n) ms = (evs, res)"
    by (cases "attempt_loop body a (Suc n) ms")
  from l show ?case
  proof (cases rule: loop_Suc)
    case returned
    with returned body_generate_count [OF assms, of a ms] l show ?thesis by simp
  next
    case (retried e1 ms1 e2)
    from body_generate_count [OF assms, of a ms] retried(1)
    have "length (filter is_generate e1) = 1" by simp
    moreover from Suc.IH [of "a + 1" ms1] retried(2)
    have "length (filter is_generate e2) \<le> n" by simp
    ultimately show ?thesis using l retried(3) by simp
  qed
qed

lemma loop_range:
  assumes "\<And>a ms. \<exists>rest. fst (body a ms) = EGenerate a ms # rest \<and> tagged rest a"
  shows "attempt_loop body a n ms = (evs, res) \<Longrightarrow> ev \<in> set evs
           \<Longrightarrow> a \<le> ev_attempt ev \<and> ev_attempt ev < a + int n"
proof (induction n arbitrary: a ms evs res)
  case 0
  then show ?case by simp
next
  case (Suc n)
  from Suc.prems(1) show ?case
  proof (cases rule: loop_Suc)
    case returned
    with returned Suc.prems(2) body_events_attempt [OF assms, of ev a ms] show ?thesis by simp
  next
    case (retried e1 ms1 e2)
    show ?thesis
    proof (cases "ev \<in> set e1")
      case True
      with retried(1) body_events_attempt [OF assms, of ev a ms] show ?thesis by simp
    next
      case False
      with Suc.prems(2) retried(3) have "ev \<in> set e2" by simp
      from Suc.IH [OF retried(2) this] show ?thesis by simp
    qed
  qed
qed

lemma loop_first:
  assumes "\<And>a ms. \<exists>rest. fst (body a ms) = EGenerate a ms # rest \<and> tagged rest a"
      and "attempt_loop body a n ms = (evs, res)" and "ev \<in> set evs" and "ev_attempt ev = a"
  shows "ev \<in> set (fst (body a ms))"
proof (cases n)
  case 0
  with assms(2,3) show ?thesis by simp
next
  case (Suc n')
  from assms(2) [unfolded Suc] show ?thesis
  proof (cases rule: loop_Suc)
    case returned
    with returned assms(3) show ?thesis by simp
  next
    case (retried e1 ms1 e2)
    have "ev \<notin> set e2"
      using loop_range [OF assms(1) retried(2), of ev] assms(4) by auto
    with assms(3) retried(1,3) show ?thesis by simp
  qed
qed

text \<open>
  The attempt \<open>k\<close> of a run that has an event of attempt \<open>k\<close>: all events of that
  attempt come from one pass through the body; if that pass returns, its value is the
  value of the run and nothing of a later attempt happens; if it goes on, the events of
  attempt \<open>k + 1\<close> come from the pass with the conversation it handed on.
\<close>

lemma loop_attempt:
  assumes tg: "\<And>a ms. \<exists>rest. fst (body a ms) = EGenerate a ms # rest \<and> tagged rest a"
  shows "attempt_loop body a n ms = (evs, res) \<Longrightarrow> ev0 \<in> set evs \<Longrightarrow> ev_attempt ev0 = k
    \<Longrightarrow> \<exists>msk. set (fst (body k msk)) \<subseteq> set evs
          \<and> (\<forall>ev\<in>set evs. ev_attempt ev = k \<longrightarrow> ev \<in> set (fst (body k msk)))
          \<and> (\<forall>r. snd (body k msk) = Done r \<longrightarrow> res = r \<and> (\<forall>ev\<in>set evs. ev_attempt ev \<le> k))
          \<and> (\<forall>ms'. snd (body k msk) = Retry ms' \<longrightarrow>
                (\<forall>ev\<in>set evs. ev_attempt ev = k + 1 \<longrightarrow> ev \<in> set (fst (body (k + 1) ms'))))"
proof (induction n arbitrary: a ms evs res)
  case 0
  then show ?case by simp
next
  case (Suc n)
  from Suc.prems(1) show ?case
  proof (cases rule: loop_Suc)
    case returned
    from returned Suc.prems(2) body_events_attempt [OF tg, of ev0 a ms] Suc.prems(3)
    have ka: "k = a" by simp
    have all: "\<forall>ev\<in>set evs. ev_attempt ev = a"
      using returned body_events_attempt [OF tg, of _ a ms] by simp
    show ?thesis
      apply (rule exI [of _ ms])
      using returned all ka by simp
  next
    case (retried e1 ms1 e2)
    have i1: "\<And>ev. ev \<in> set e1 \<Longrightarrow> ev_attempt ev = a"
      using retried(1) body_events_attempt [OF tg, of _ a ms] by simp
    have i2: "\<And>ev. ev \<in> set e2 \<Longrightarrow> a + 1 \<le> ev_attempt ev"
      using loop_range [OF tg retried(2)] by simp
    show ?thesis
    proof (cases "k = a")
      case True
      have c1: "\<forall>ev\<in>set evs. ev_attempt ev = k \<longrightarrow> ev \<in> set (fst (body k ms))"
        using retried(1,3) True i2 by fastforce
      have c3: "\<forall>ev\<in>set evs. ev_attempt ev = k + 1 \<longrightarrow> ev \<in> set (fst (body (k + 1) ms1))"
      proof (intro ballI impI)
        fix ev assume ev: "ev \<in> set evs" "ev_attempt ev = k + 1"
        with i1 True retried(3) have "ev \<in> set e2" by fastforce
        from loop_first [OF tg retried(2) this] ev(2) True show "ev \<in> set (fst (body (k + 1) ms1))"
          by simp
      qed
      have c0: "set (fst (body k ms)) \<subseteq> set evs"
        using retried(1,3) True by simp
      show ?thesis
        apply (rule exI [of _ ms])
        using c0 c1 c3 retried(1) True by simp
    next
      case False
      with Suc.prems(2,3) retried(3) i1 have in2: "ev0 \<in> set e2" by auto
      from i2 [OF in2] Suc.prems(3) have ak: "a + 1 \<le> k" by simp
      from Suc.IH [OF retried(2) in2 Suc.prems(3)] obtain msk where
        h0: "set (fst (body k msk)) \<subseteq> set e2" and
        h1: "\<forall>ev\<in>set e2. ev_attempt ev = k \<longrightarrow> ev \<in> set (fst (body k msk))" and
        h2: "\<forall>r. snd (body k msk) = Done r \<longrightarrow> res = r \<and> (\<forall>ev\<in>set e2. ev_attempt ev \<le> k)" and
        h3: "\<forall>ms'. snd (body k msk) = Retry ms' \<longrightarrow>
               (\<forall>ev\<in>set e2. ev_attempt ev = k + 1 \<longrightarrow> ev \<in> set (fst (body (k + 1) ms')))"
        by blast
      have c1: "\<forall>ev\<in>set evs. ev_attempt ev = k \<longrightarrow> ev \<in> set (fst (body k msk))"
        using h1 i1 False retried(3) by auto
      have c2: "\<forall>r. snd (body k msk) = Done r \<longrightarrow> res = r \<and> (\<forall>ev\<in>set evs. ev_attempt ev \<le> k)"
        using h2 i1 ak retried(3) by fastforce
      have c3: "\<forall>ms'. snd (body k msk) = Retry ms' \<longrightarrow>
               (\<forall>ev\<in>set evs. ev_attempt ev = k + 1 \<longrightarrow> ev \<in> set (fst (body (k + 1) ms')))"
        using h3 i1 ak retried(3) by fastforce
      have c0: "set (fst (body k msk)) \<subseteq> set evs"
        using h0 retried(3) by auto
      from c0 c1 c2 c3 show ?thesis by blast
    qed
  qed
qed

subsection \<open>Both operations at once\<close>

text \<open>In this subsection \<open>t\<close> is the \<open>try\<close> block of either operation at attempt \<open>a\<close>
  with the conversation \<open>ms\<close>, and \<open>fb\<close> the follow-up text of that operation.\<close>

lemma try_shape_either:
  assumes "t = query_try env mr a ms \<and> fb = query_feedback
           \<or> t = dashboard_try env mr a ms \<and> fb = dashboard_feedback"
  shows "(\<exists>rest e. fst t = EGenerate a ms # rest \<and> unjudged rest \<and> tagged rest a
            \<and> snd t = Inl e)
       \<or> (\<exists>reply data v lg e1 e2 r2.
             complete env a ms = Inr (Some reply)
           \<and> fst t = EGenerate a ms # e1 @ [EValidate a data, EVerdict a v lg] @ e2
           \<and> quiet e1 \<and> tagged e1 a \<and> notify_validation env a v lg = (e2, r2)
           \<and> snd t = (case r2 of Inl e \<Rightarrow> Inl e
                       | Inr u \<Rightarrow> Inr (conclude fb mr a ms reply data v lg)))"
proof -
  obtain evs r where t: "t = (evs, r)" by (cases t)
  from assms show ?thesis
  proof
    assume "t = query_try env mr a ms \<and> fb = query_feedback"
    with t have q: "query_try env mr a ms = (evs, r)" and fb: "fb = query_feedback"
      by simp_all
    from query_try_shape [OF q] show ?thesis unfolding t fb by simp
  next
    assume "t = dashboard_try env mr a ms \<and> fb = dashboard_feedback"
    with t have q: "dashboard_try env mr a ms = (evs, r)" and fb: "fb = dashboard_feedback"
      by simp_all
    from dashboard_try_shape [OF q] show ?thesis unfolding t fb by simp
  qed
qed

lemma try_tagged:
  assumes "t = query_try env mr a ms \<and> fb = query_feedback
           \<or> t = dashboard_try env mr a ms \<and> fb = dashboard_feedback"
  shows "\<exists>rest. fst t = EGenerate a ms # rest \<and> tagged rest a"
  using try_shape_either [OF assms]
proof (elim disjE exE conjE)
  fix rest e assume "fst t = EGenerate a ms # rest" "tagged rest a"
  then show ?thesis by blast
next
  fix reply data v lg e1 e2 r2
  assume f: "fst t = EGenerate a ms # e1 @ [EValidate a data, EVerdict a v lg] @ e2"
     and e1: "tagged e1 a" and n: "notify_validation env a v lg = (e2, r2)"
  from notify_validation_tagged [OF n] e1
  have "tagged (e1 @ [EValidate a data, EVerdict a v lg] @ e2) a"
    by (simp add: tagged_def)
  with f show ?thesis by blast
qed

lemma try_verdict:
  assumes either: "t = query_try env mr a ms \<and> fb = query_feedback
           \<or> t = dashboard_try env mr a ms \<and> fb = dashboard_feedback"
      and d: "EValidate k data \<in> set (fst t)" and v: "EVerdict k v lg \<in> set (fst t)"
      and cb: "validation_callback_returns env a v lg"
  shows "\<exists>reply. complete env a ms = Inr (Some reply)
           \<and> snd t = Inr (conclude fb mr a ms reply data v lg)"
  using try_shape_either [OF either]
proof (elim disjE exE conjE)
  fix rest e assume "fst t = EGenerate a ms # rest" "unjudged rest"
  with v unjudged_mem [of rest "EVerdict k v lg"] show ?thesis by auto
next
  fix reply data' v' lg' e1 e2 r2
  assume c: "complete env a ms = Inr (Some reply)"
     and f: "fst t = EGenerate a ms # e1 @ [EValidate a data', EVerdict a v' lg'] @ e2"
     and e1: "quiet e1" and n: "notify_validation env a v' lg' = (e2, r2)"
     and s: "snd t = (case r2 of Inl e \<Rightarrow> Inl e
                      | Inr u \<Rightarrow> Inr (conclude fb mr a ms reply data' v' lg'))"
  note e2 = notify_validation_quiet [OF n]
  from v f quiet_mem [OF e1, of "EVerdict k v lg"] quiet_mem [OF e2, of "EVerdict k v lg"]
  have v': "v' = v" "lg' = lg" by auto
  from d f quiet_mem [OF e1, of "EValidate k data"] quiet_mem [OF e2, of "EValidate k data"]
  have d': "data' = data" by auto
  from notify_validation_returns [OF cb] n v' have "r2 = Inr ()" by simp
  with s v' d' c show ?thesis by simp
qed

lemma handle_exception_retry: "handle_exception mr a ms e = Retry ms' \<Longrightarrow> ms' = ms"
  by (simp add: handle_exception_def split: if_splits)

lemma conclude_retry:
  "conclude fb mr a ms reply data v lg = Retry ms' \<Longrightarrow>
     \<not> v \<and> a < mr
     \<and> ms' = ms @ [\<lparr>role = ''assistant'', content = reply\<rparr>, \<lparr>role = ''user'', content = fb lg\<rparr>]"
  by (simp add: conclude_def split: if_splits)

lemma try_retry:
  assumes either: "t = query_try env mr a ms \<and> fb = query_feedback
           \<or> t = dashboard_try env mr a ms \<and> fb = dashboard_feedback"
      and r: "snd (run_step t mr a ms) = Retry ms'"
  shows "ms' = ms
       \<or> (a < mr \<and> (\<exists>reply lg. complete env a ms = Inr (Some reply)
              \<and> EVerdict a False lg \<in> set (fst t)
              \<and> ms' = ms @ [\<lparr>role = ''assistant'', content = reply\<rparr>,
                            \<lparr>role = ''user'', content = fb lg\<rparr>]))"
proof (cases "snd t")
  case (Inl e)
  with r have "handle_exception mr a ms e = Retry ms'"
    by (cases t) (simp add: run_step_def)
  then show ?thesis by (simp add: handle_exception_retry)
next
  case (Inr st)
  with r have st: "st = Retry ms'" by (cases t) (simp add: run_step_def)
  from try_shape_either [OF either] show ?thesis
  proof (elim disjE exE conjE)
    fix rest e assume "snd t = Inl e"
    with Inr show ?thesis by simp
  next
    fix reply data v lg e1 e2 r2
    assume c: "complete env a ms = Inr (Some reply)"
       and f: "fst t = EGenerate a ms # e1 @ [EValidate a data, EVerdict a v lg] @ e2"
       and s: "snd t = (case r2 of Inl e \<Rightarrow> Inl e
                        | Inr u \<Rightarrow> Inr (conclude fb mr a ms reply data v lg))"
    from s Inr st have "conclude fb mr a ms reply data v lg = Retry ms'"
      by (cases r2) simp_all
    from conclude_retry [OF this] c f show ?thesis by auto
  qed
qed

lemma run_step_fst: "fst (run_step t mr a ms) = fst t"
  by (cases t) (simp add: run_step_def split: sum.splits)

lemma query_step_tagged:
  "\<exists>rest. fst (query_step env mr a ms) = EGenerate a ms # rest \<and> tagged rest a"
  unfolding query_step_def run_step_fst
  by (rule try_tagged [of _ env mr a ms query_feedback]) simp

lemma dashboard_step_tagged:
  "\<exists>rest. fst (dashboard_step env mr a ms) = EGenerate a ms # rest \<and> tagged rest a"
  unfolding dashboard_step_def run_step_fst
  by (rule try_tagged [of _ env mr a ms dashboard_feedback]) simp

text \<open>A run of either operation is the loop over its body.\<close>

lemma run_is_loop:
  assumes "r = translate_query env src mr \<and> fb = query_feedback
           \<or> r = translate_dashboard env src mr \<and> fb = dashboard_feedback"
  shows "\<exists>body ms0 try_block.
           r = attempt_loop body 1 (nat mr) ms0
         \<and> (\<forall>a ms. body a ms = run_step (try_block a ms) mr a ms)
         \<and> (\<forall>a ms. try_block a ms = query_try env mr a ms \<and> fb = query_feedback
              \<or> try_block a ms = dashboard_try env mr a ms \<and> fb = dashboard_feedback)"
  using assms
proof
  assume a: "r = translate_query env src mr \<and> fb = query_feedback"
  show ?thesis
    apply (rule exI [of _ "query_step env mr"])
    apply (rule exI)
    apply (rule exI [of _ "query_try env mr"])
    apply (simp add: a translate_query_def query_step_def)
    done
next
  assume a: "r = translate_dashboard env src mr \<and> fb = dashboard_feedback"
  show ?thesis
    apply (rule exI [of _ "dashboard_step env mr"])
    apply (rule exI)
    apply (rule exI [of _ "dashboard_try env mr"])
    apply (simp add: a translate_dashboard_def dashboard_step_def)
    done
qed

subsection \<open>Runs of the two operations\<close>

lemma run_body_tagged:
  assumes "\<And>a ms. body a ms = run_step (try_block a ms) mr a ms"
      and "\<And>a ms. try_block a ms = query_try env mr a ms \<and> fb = query_feedback
              \<or> try_block a ms = dashboard_try env mr a ms \<and> fb = dashboard_feedback"
  shows "\<exists>rest. fst (body a ms) = EGenerate a ms # rest \<and> tagged rest a"
  unfolding assms(1) run_step_fst by (rule try_tagged [OF assms(2)])

text \<open>
  C4. For every bound of at least one attempt, a run of either operation calls the
  model at most that many times.
\<close>

theorem generator_calls_bounded:
  assumes "1 \<le> max_retries"
  shows "int (length (filter is_generate (fst (translate_query env src max_retries))))
           \<le> max_retries
       \<and> int (length (filter is_generate (fst (translate_dashboard env src max_retries))))
           \<le> max_retries"
proof -
  have q: "length (filter is_generate (fst (translate_query env src max_retries)))
             \<le> nat max_retries"
    unfolding translate_query_def
    by (rule loop_count [of "query_step env max_retries", OF query_step_tagged])
  have d: "length (filter is_generate (fst (translate_dashboard env src max_retries)))
             \<le> nat max_retries"
    unfolding translate_dashboard_def
    by (rule loop_count [of "dashboard_step env max_retries", OF dashboard_step_tagged])
  from q d assms show ?thesis by linarith
qed

theorem generator_calls_bounded_witness:
  "(1::int) \<le> 2
   \<and> int (length (filter is_generate
        (fst (translate_query (dashboard_env empty_targets_dashboard None) ''src'' 2)))) \<le> 2
   \<and> int (length (filter is_generate
        (fst (translate_dashboard (dashboard_env empty_targets_dashboard None) ''src'' 2))))
       \<le> 2"
proof -
  have h: "(1::int) \<le> 2" by simp
  from generator_calls_bounded [OF h] h show ?thesis by blast
qed

lemma dashboard_run_twice_failing:
  "translate_dashboard (dashboard_env empty_targets_dashboard None) ''src'' 2 =
     ([EGenerate 1 first_conversation,
       EValidate 1 (dashboard_reply empty_targets_dashboard),
       EVerdict 1 False empty_targets_log,
       EGenerate 2 (first_conversation
          @ [\<lparr>role = ''assistant'', content = ''reply''\<rparr>,
             \<lparr>role = ''user'', content = dashboard_feedback empty_targets_log\<rparr>]),
       EValidate 2 (dashboard_reply empty_targets_dashboard),
       EVerdict 2 False empty_targets_log],
      (False, Some (dashboard_reply empty_targets_dashboard), empty_targets_log))"
  by code_simp

lemma dashboard_run_passing:
  "translate_dashboard (dashboard_env minimal_dashboard None) ''src'' 2 =
     ([EGenerate 1 first_conversation,
       EValidate 1 (dashboard_reply minimal_dashboard),
       EVerdict 1 True minimal_log],
      (True, Some (dashboard_reply minimal_dashboard), minimal_log))"
  by code_simp

subsection \<open>Attempts that fail before the validator\<close>

lemma try_adapter_failure:
  assumes "complete env a ms = Inl e"
  shows "query_try env mr a ms = ([EGenerate a ms], Inl e)"
    and "dashboard_try env mr a ms = ([EGenerate a ms], Inl e)"
  using assms
  by (simp_all add: query_try_def dashboard_try_def call_model_def tbind_def)

lemma try_parse_failure:
  assumes "complete env a ms = Inr c" and "py_json_loads env c = Inl e"
  shows "query_try env mr a ms = ([EGenerate a ms], Inl e)"
    and "dashboard_try env mr a ms = ([EGenerate a ms], Inl e)"
  using assms
  by (simp_all add: query_try_def dashboard_try_def call_model_def tbind_def lift_def)

lemma try_after_parse:
  assumes "complete env a ms = Inr (Some s)" and "json_loads env s = Inr data"
  shows "query_try env mr a ms =
           (case query_prepare env a data of
              (e1, Inl e) \<Rightarrow> (EGenerate a ms # e1, Inl e)
            | (e1, Inr u) \<Rightarrow>
                (case tbind (query_validate env a data)
                        (finish env query_feedback mr a ms s data) of
                   (e2, r) \<Rightarrow> (EGenerate a ms # e1 @ e2, r)))"
    and "dashboard_try env mr a ms =
           (case dashboard_prepare env a data of
              (e1, Inl e) \<Rightarrow> (EGenerate a ms # e1, Inl e)
            | (e1, Inr u) \<Rightarrow>
                (case tbind (dashboard_validate env a data)
                        (finish env dashboard_feedback mr a ms s data) of
                   (e2, r) \<Rightarrow> (EGenerate a ms # e1 @ e2, r)))"
  using assms
  by (simp_all add: query_try_def dashboard_try_def call_model_def py_json_loads_def
        tbind_def lift_def split: prod.splits sum.splits)

lemma missing_fields_object:
  "missing_fields ks (JObj kvs) = Inr (filter (\<lambda>k. k \<notin> fst ` set kvs) ks)"
  by (induction ks) (simp_all add: ebind_def)

lemma missing_fields_total: "(\<exists>e. missing_fields ks d = Inl e) \<or> (\<exists>m. missing_fields ks d = Inr m)"
  by (cases "missing_fields ks d") simp_all

lemma getitem_not_object: "\<not> is_object d \<Longrightarrow> \<exists>e. py_getitem d k = Inl e"
  by (cases d) (simp_all add: is_object_def)

lemma get_not_object: "\<not> is_object d \<Longrightarrow> \<exists>e. py_get d k x = Inl e"
  by (cases d) (simp_all add: is_object_def)

text \<open>A candidate without all of \<open>reasoning\<close>, \<open>rule_yaml\<close>, \<open>test_yaml\<close>: the block
  raises in the check of the structure, or (when the candidate is no object at all) at
  the first subscript, before the validator is called.\<close>

lemma query_prepare_missing:
  assumes "\<not> has_fields [''reasoning'', ''rule_yaml'', ''test_yaml''] data"
  shows "(\<exists>e. query_prepare env a data = ([], Inl e))
       \<or> (query_prepare env a data = ([], Inr ())
           \<and> (\<exists>e. query_validate env a data = ([], Inl e)))"
proof (cases "is_object data")
  case True
  then obtain kvs where d: "data = JObj kvs" by (cases data) (simp_all add: is_object_def)
  from assms have "filter (\<lambda>k. k \<notin> fst ` set kvs) [''reasoning'', ''rule_yaml'', ''test_yaml'']
                     \<noteq> []"
    unfolding d by (auto simp add: has_fields_def has_field_def)
  then show ?thesis
    unfolding d query_prepare_def missing_fields_object
    by (simp add: tbind_def lift_def)
next
  case False
  from getitem_not_object [OF False] obtain e1 where
    g1: "py_getitem data ''reasoning'' = Inl e1" by blast
  from getitem_not_object [OF False] obtain e2 where
    g2: "py_getitem data ''rule_yaml'' = Inl e2" by blast
  from missing_fields_total [of "[''reasoning'', ''rule_yaml'', ''test_yaml'']" data]
  show ?thesis
  proof (elim disjE exE)
    fix e assume "missing_fields [''reasoning'', ''rule_yaml'', ''test_yaml''] data = Inl e"
    then show ?thesis by (simp add: query_prepare_def tbind_def lift_def)
  next
    fix m assume m: "missing_fields [''reasoning'', ''rule_yaml'', ''test_yaml''] data = Inr m"
    show ?thesis
    proof (cases "m = []")
      case False
      with m show ?thesis by (simp add: query_prepare_def tbind_def lift_def)
    next
      case True
      show ?thesis
      proof (cases "on_attempt env")
        case None
        with m True g1 g2 show ?thesis
          by (simp add: query_prepare_def query_validate_def tbind_def lift_def
                notify_attempt_def)
      next
        case (Some cb)
        with m True g1 show ?thesis
          by (simp add: query_prepare_def tbind_def lift_def notify_attempt_def)
      qed
    qed
  qed
qed

lemma dashboard_prepare_missing:
  assumes "\<not> has_field ''grafana_dashboard'' data"
  shows "(\<exists>e. dashboard_prepare env a data = ([], Inl e))
       \<or> (dashboard_prepare env a data = ([], Inr ())
           \<and> (\<exists>e. dashboard_validate env a data = ([], Inl e)))"
proof (cases "is_object data")
  case True
  then obtain kvs where d: "data = JObj kvs" by (cases data) (simp_all add: is_object_def)
  from assms have "''grafana_dashboard'' \<notin> fst ` set kvs"
    unfolding d by (simp add: has_field_def)
  then show ?thesis
    unfolding d dashboard_prepare_def by (simp add: tbind_def lift_def)
next
  case False
  from get_not_object [OF False] obtain e1 where
    g1: "py_get data ''reasoning'' (JStr ''N/A'') = Inl e1" by blast
  from getitem_not_object [OF False] obtain e2 where
    g2: "py_getitem data ''grafana_dashboard'' = Inl e2" by blast
  show ?thesis
  proof (cases "py_in ''grafana_dashboard'' data")
    case (Inl e)
    then show ?thesis by (simp add: dashboard_prepare_def tbind_def lift_def)
  next
    case (Inr present)
    show ?thesis
    proof (cases present)
      case False
      with Inr show ?thesis by (simp add: dashboard_prepare_def tbind_def lift_def)
    next
      case True
      show ?thesis
      proof (cases "on_attempt env")
        case None
        with Inr True g1 g2 show ?thesis
          by (simp add: dashboard_prepare_def dashboard_validate_def tbind_def lift_def
                notify_attempt_def)
      next
        case (Some cb)
        with Inr True g1 show ?thesis
          by (simp add: dashboard_prepare_def tbind_def lift_def notify_attempt_def)
      qed
    qed
  qed
qed

lemma query_try_missing:
  assumes "complete env a ms = Inr (Some s)" and "json_loads env s = Inr data"
      and "\<not> has_fields [''reasoning'', ''rule_yaml'', ''test_yaml''] data"
  shows "\<exists>e. query_try env mr a ms = ([EGenerate a ms], Inl e)"
  using query_prepare_missing [OF assms(3), of env a]
  unfolding try_after_parse(1) [OF assms(1,2)]
  by (auto simp add: tbind_def)

lemma dashboard_try_missing:
  assumes "complete env a ms = Inr (Some s)" and "json_loads env s = Inr data"
      and "\<not> has_field ''grafana_dashboard'' data"
  shows "\<exists>e. dashboard_try env mr a ms = ([EGenerate a ms], Inl e)"
  using dashboard_prepare_missing [OF assms(3), of env a]
  unfolding try_after_parse(2) [OF assms(1,2)]
  by (auto simp add: tbind_def)

text \<open>
  C2, as the code has it. When the completion of an attempt parses to a candidate that
  lacks one of \<open>reasoning\<close>, \<open>rule_yaml\<close>, \<open>test_yaml\<close>, the \<open>try\<close> block of
  \<open>translate_query\<close> raises and its only event is the call of the model: the validator
  is not called. The same holds of \<open>translate_dashboard\<close> for a candidate that lacks
  \<open>grafana_dashboard\<close>; \<open>reasoning\<close> is not required there.
\<close>

theorem missing_fields_rejected_before_validation:
  assumes "complete env a ms = Inr (Some s)" and "json_loads env s = Inr data"
  shows "(\<not> has_fields [''reasoning'', ''rule_yaml'', ''test_yaml''] data \<longrightarrow>
            (\<exists>e. query_try env mr a ms = ([EGenerate a ms], Inl e)))
       \<and> (\<not> has_fields [''grafana_dashboard''] data \<longrightarrow>
            (\<exists>e. dashboard_try env mr a ms = ([EGenerate a ms], Inl e)))"
proof (intro conjI impI)
  assume "\<not> has_fields [''reasoning'', ''rule_yaml'', ''test_yaml''] data"
  from query_try_missing [OF assms this]
  show "\<exists>e. query_try env mr a ms = ([EGenerate a ms], Inl e)" .
next
  assume "\<not> has_fields [''grafana_dashboard''] data"
  then have "\<not> has_field ''grafana_dashboard'' data" by (simp add: has_fields_def)
  from dashboard_try_missing [OF assms this]
  show "\<exists>e. dashboard_try env mr a ms = ([EGenerate a ms], Inl e)" .
qed

theorem missing_fields_rejected_before_validation_witness:
  "complete (dashboard_env minimal_dashboard None) 1 first_conversation = Inr (Some ''reply'')
   \<and> json_loads (dashboard_env minimal_dashboard None) ''reply''
       = Inr (dashboard_reply minimal_dashboard)
   \<and> \<not> has_fields [''reasoning'', ''rule_yaml'', ''test_yaml'']
         (dashboard_reply minimal_dashboard)
   \<and> fst (query_try (dashboard_env minimal_dashboard None) 2 1 first_conversation)
       = [EGenerate 1 first_conversation]
   \<and> isl (snd (query_try (dashboard_env minimal_dashboard None) 2 1 first_conversation))"
proof -
  have c: "complete (dashboard_env minimal_dashboard None) 1 first_conversation
             = Inr (Some ''reply'')"
    by (simp add: dashboard_env_def)
  have l: "json_loads (dashboard_env minimal_dashboard None) ''reply''
             = Inr (dashboard_reply minimal_dashboard)"
    by (simp add: dashboard_env_def)
  have h: "\<not> has_fields [''reasoning'', ''rule_yaml'', ''test_yaml'']
               (dashboard_reply minimal_dashboard)"
    by (simp add: has_fields_def has_field_def dashboard_reply_def)
  from missing_fields_rejected_before_validation [OF c l, of 2] h
  obtain e where "query_try (dashboard_env minimal_dashboard None) 2 1 first_conversation
                    = ([EGenerate 1 first_conversation], Inl e)"
    by blast
  with c l h show ?thesis by simp
qed

text \<open>
  The counterexample to C2 as stated: the candidate of this dashboard run has no
  \<open>reasoning\<close>, the validator is called on it all the same, and the run succeeds.
\<close>

theorem candidate_without_reasoning_validated:
  "\<not> has_field ''reasoning'' (dashboard_reply minimal_dashboard)
   \<and> EValidate 1 (dashboard_reply minimal_dashboard)
       \<in> set (fst (translate_dashboard (dashboard_env minimal_dashboard None) ''src'' 2))
   \<and> fst (snd (translate_dashboard (dashboard_env minimal_dashboard None) ''src'' 2))"
  by (simp add: dashboard_run_passing) (simp add: has_field_def dashboard_reply_def)

subsection \<open>What a run returns\<close>

text \<open>The attempt \<open>k\<close> of a run of either operation that has an event of attempt \<open>k\<close>.\<close>

lemma run_attempt:
  assumes either: "r = translate_query env src mr \<and> fb = query_feedback
           \<or> r = translate_dashboard env src mr \<and> fb = dashboard_feedback"
      and ev0: "ev0 \<in> set (fst r)" "ev_attempt ev0 = k"
  shows "\<exists>msk t.
      (t = query_try env mr k msk \<and> fb = query_feedback
         \<or> t = dashboard_try env mr k msk \<and> fb = dashboard_feedback)
    \<and> set (fst t) \<subseteq> set (fst r)
    \<and> (\<forall>ev. ev \<in> set (fst r) \<longrightarrow> ev_attempt ev = k \<longrightarrow> ev \<in> set (fst t))
    \<and> (\<forall>res. snd (run_step t mr k msk) = Done res
          \<longrightarrow> snd r = res \<and> (\<forall>ev\<in>set (fst r). ev_attempt ev \<le> k))
    \<and> (\<forall>ms' m'. snd (run_step t mr k msk) = Retry ms'
          \<longrightarrow> EGenerate (k + 1) m' \<in> set (fst r) \<longrightarrow> m' = ms')"
proof -
  from run_is_loop [OF either] obtain body ms0 try_block where
    r: "r = attempt_loop body 1 (nat mr) ms0" and
    b: "\<And>a ms. body a ms = run_step (try_block a ms) mr a ms" and
    tb: "\<And>a ms. try_block a ms = query_try env mr a ms \<and> fb = query_feedback
              \<or> try_block a ms = dashboard_try env mr a ms \<and> fb = dashboard_feedback"
    by blast
  have tg: "\<And>a ms. \<exists>rest. fst (body a ms) = EGenerate a ms # rest \<and> tagged rest a"
    by (rule run_body_tagged [OF b tb])
  obtain evs res where er: "attempt_loop body 1 (nat mr) ms0 = (evs, res)"
    by (cases "attempt_loop body 1 (nat mr) ms0")
  from ev0 r er have in0: "ev0 \<in> set evs" by simp
  from loop_attempt [OF tg er in0 ev0(2)] obtain msk where
    c0: "set (fst (body k msk)) \<subseteq> set evs" and
    c1: "\<forall>ev\<in>set evs. ev_attempt ev = k \<longrightarrow> ev \<in> set (fst (body k msk))" and
    c2: "\<forall>r. snd (body k msk) = Done r \<longrightarrow> res = r \<and> (\<forall>ev\<in>set evs. ev_attempt ev \<le> k)" and
    c3: "\<forall>ms'. snd (body k msk) = Retry ms' \<longrightarrow>
           (\<forall>ev\<in>set evs. ev_attempt ev = k + 1 \<longrightarrow> ev \<in> set (fst (body (k + 1) ms')))"
    by blast
  have f: "\<And>a ms. fst (body a ms) = fst (try_block a ms)"
    by (simp add: b run_step_fst)
  have fr: "fst r = evs" "snd r = res" using r er by simp_all
  have p2: "set (fst (try_block k msk)) \<subseteq> set (fst r)"
    using c0 by (simp add: f fr)
  have p3: "\<forall>ev. ev \<in> set (fst r) \<longrightarrow> ev_attempt ev = k \<longrightarrow> ev \<in> set (fst (try_block k msk))"
    using c1 by (simp add: f fr)
  have p4: "\<forall>res'. snd (run_step (try_block k msk) mr k msk) = Done res'
            \<longrightarrow> snd r = res' \<and> (\<forall>ev\<in>set (fst r). ev_attempt ev \<le> k)"
    using c2 by (simp add: b fr)
  have p5: "\<forall>ms' m'. snd (run_step (try_block k msk) mr k msk) = Retry ms'
            \<longrightarrow> EGenerate (k + 1) m' \<in> set (fst r) \<longrightarrow> m' = ms'"
  proof (intro allI impI)
    fix ms' m'
    assume s: "snd (run_step (try_block k msk) mr k msk) = Retry ms'"
       and g: "EGenerate (k + 1) m' \<in> set (fst r)"
    from s have "snd (body k msk) = Retry ms'" by (simp add: b)
    with c3 g have "EGenerate (k + 1) m' \<in> set (fst (body (k + 1) ms'))"
      by (auto simp add: fr)
    from body_generate [OF tg this] show "m' = ms'" .
  qed
  from tb [of k msk] p2 p3 p4 p5 show ?thesis by blast
qed

lemma run_step_returned: "snd t = Inr st \<Longrightarrow> snd (run_step t mr a ms) = st"
  by (cases t) (simp add: run_step_def)

text \<open>
  C5, as the code has it. If in a run of either operation the validator is called on
  the candidate \<open>data\<close> at attempt \<open>k\<close> and returns a passing verdict with the log
  \<open>lg\<close>, and the \<open>on_validation\<close> callback (if there is one) returns from its call, then
  the run returns \<open>(True, data, lg)\<close> and no event of the run, so no call of the model,
  belongs to a later attempt.
\<close>

theorem passing_verdict_ends_run:
  assumes "r = translate_query env src mr \<or> r = translate_dashboard env src mr"
      and "EValidate k data \<in> set (fst r)" and "EVerdict k True lg \<in> set (fst r)"
      and "validation_callback_returns env k True lg"
  shows "snd r = (True, Some data, lg) \<and> (\<forall>ev\<in>set (fst r). ev_attempt ev \<le> k)"
proof -
  from assms(1) obtain fb where either:
    "r = translate_query env src mr \<and> fb = query_feedback
       \<or> r = translate_dashboard env src mr \<and> fb = dashboard_feedback"
    by blast
  have k: "ev_attempt (EVerdict k True lg) = k" by simp
  from run_attempt [OF either assms(3) k] obtain msk t where
    t: "t = query_try env mr k msk \<and> fb = query_feedback
          \<or> t = dashboard_try env mr k msk \<and> fb = dashboard_feedback" and
    at: "\<And>ev. ev \<in> set (fst r) \<Longrightarrow> ev_attempt ev = k \<Longrightarrow> ev \<in> set (fst t)" and
    ret: "\<And>res. snd (run_step t mr k msk) = Done res
            \<Longrightarrow> snd r = res \<and> (\<forall>ev\<in>set (fst r). ev_attempt ev \<le> k)"
    by blast
  from at [OF assms(2)] have d: "EValidate k data \<in> set (fst t)" by simp
  from at [OF assms(3)] have v: "EVerdict k True lg \<in> set (fst t)" by simp
  from try_verdict [OF t d v assms(4)] obtain reply where
    "snd t = Inr (conclude fb mr k msk reply data True lg)" by blast
  then have "snd (run_step t mr k msk) = Done (True, Some data, lg)"
    by (simp add: run_step_returned conclude_def)
  from ret [OF this] show ?thesis .
qed

theorem passing_verdict_ends_run_witness:
  "EValidate 1 (dashboard_reply minimal_dashboard)
     \<in> set (fst (translate_dashboard (dashboard_env minimal_dashboard None) ''src'' 2))
   \<and> EVerdict 1 True minimal_log
     \<in> set (fst (translate_dashboard (dashboard_env minimal_dashboard None) ''src'' 2))
   \<and> validation_callback_returns (dashboard_env minimal_dashboard None) 1 True minimal_log
   \<and> snd (translate_dashboard (dashboard_env minimal_dashboard None) ''src'' 2)
       = (True, Some (dashboard_reply minimal_dashboard), minimal_log)
   \<and> list_all (\<lambda>ev. ev_attempt ev \<le> 1)
       (fst (translate_dashboard (dashboard_env minimal_dashboard None) ''src'' 2))"
proof -
  let ?r = "translate_dashboard (dashboard_env minimal_dashboard None) ''src'' 2"
  have a: "?r = translate_query (dashboard_env minimal_dashboard None) ''src'' 2
             \<or> ?r = translate_dashboard (dashboard_env minimal_dashboard None) ''src'' 2"
    by simp
  have b: "EValidate 1 (dashboard_reply minimal_dashboard) \<in> set (fst ?r)"
    by (simp add: dashboard_run_passing)
  have c: "EVerdict 1 True minimal_log \<in> set (fst ?r)"
    by (simp add: dashboard_run_passing)
  have d: "validation_callback_returns (dashboard_env minimal_dashboard None) 1 True minimal_log"
    by (simp add: validation_callback_returns_def dashboard_env_def)
  from passing_verdict_ends_run [OF a b c d] b c d show ?thesis
    by (simp add: list_all_iff)
qed

text \<open>
  The counterexample to C5 as stated: in this run of two attempts the validator passes
  the candidate of attempt 1, the \<open>on_validation\<close> callback raises, the model is called
  a second time, and the run returns a failure.
\<close>

theorem passing_verdict_lost_to_callback:
  "verdict_at 1 True
     (fst (translate_dashboard (dashboard_env minimal_dashboard raising_callback) ''src'' 2))
   \<and> length (filter is_generate
        (fst (translate_dashboard (dashboard_env minimal_dashboard raising_callback) ''src'' 2)))
       = 2
   \<and> snd (translate_dashboard (dashboard_env minimal_dashboard raising_callback) ''src'' 2)
       = (False, None, ''callback failed'')"
  by code_simp

text \<open>
  C6, as the code has it. If the last attempt of a run of either operation (attempt
  \<open>mr\<close>, the bound) ends in a failing verdict with the log \<open>lg\<close> on the candidate
  \<open>data\<close>, as it does when every attempt produces a failing verdict, and the
  \<open>on_validation\<close> callback (if there is one) returns from its call, then the run
  returns \<open>(False, data, lg)\<close>.
\<close>

theorem failing_last_verdict_returned:
  assumes "r = translate_query env src mr \<or> r = translate_dashboard env src mr"
      and "EValidate mr data \<in> set (fst r)" and "EVerdict mr False lg \<in> set (fst r)"
      and "validation_callback_returns env mr False lg"
  shows "snd r = (False, Some data, lg)"
proof -
  from assms(1) obtain fb where either:
    "r = translate_query env src mr \<and> fb = query_feedback
       \<or> r = translate_dashboard env src mr \<and> fb = dashboard_feedback"
    by blast
  have k: "ev_attempt (EVerdict mr False lg) = mr" by simp
  from run_attempt [OF either assms(3) k] obtain msk t where
    t: "t = query_try env mr mr msk \<and> fb = query_feedback
          \<or> t = dashboard_try env mr mr msk \<and> fb = dashboard_feedback" and
    at: "\<And>ev. ev \<in> set (fst r) \<Longrightarrow> ev_attempt ev = mr \<Longrightarrow> ev \<in> set (fst t)" and
    ret: "\<And>res. snd (run_step t mr mr msk) = Done res
            \<Longrightarrow> snd r = res \<and> (\<forall>ev\<in>set (fst r). ev_attempt ev \<le> mr)"
    by blast
  from at [OF assms(2)] have d: "EValidate mr data \<in> set (fst t)" by simp
  from at [OF assms(3)] have v: "EVerdict mr False lg \<in> set (fst t)" by simp
  from try_verdict [OF t d v assms(4)] obtain reply where
    "snd t = Inr (conclude fb mr mr msk reply data False lg)" by blast
  then have "snd (run_step t mr mr msk) = Done (False, Some data, lg)"
    by (simp add: run_step_returned conclude_def)
  from ret [OF this] show ?thesis by simp
qed

theorem failing_last_verdict_returned_witness:
  "EValidate 2 (dashboard_reply empty_targets_dashboard)
     \<in> set (fst (translate_dashboard (dashboard_env empty_targets_dashboard None) ''src'' 2))
   \<and> EVerdict 2 False empty_targets_log
     \<in> set (fst (translate_dashboard (dashboard_env empty_targets_dashboard None) ''src'' 2))
   \<and> validation_callback_returns (dashboard_env empty_targets_dashboard None) 2 False
       empty_targets_log
   \<and> snd (translate_dashboard (dashboard_env empty_targets_dashboard None) ''src'' 2)
       = (False, Some (dashboard_reply empty_targets_dashboard), empty_targets_log)"
proof -
  let ?r = "translate_dashboard (dashboard_env empty_targets_dashboard None) ''src'' 2"
  have a: "?r = translate_query (dashboard_env empty_targets_dashboard None) ''src'' 2
             \<or> ?r = translate_dashboard (dashboard_env empty_targets_dashboard None) ''src'' 2"
    by simp
  have b: "EValidate 2 (dashboard_reply empty_targets_dashboard) \<in> set (fst ?r)"
    by (simp add: dashboard_run_twice_failing)
  have c: "EVerdict 2 False empty_targets_log \<in> set (fst ?r)"
    by (simp add: dashboard_run_twice_failing)
  have d: "validation_callback_returns (dashboard_env empty_targets_dashboard None) 2 False
             empty_targets_log"
    by (simp add: validation_callback_returns_def dashboard_env_def)
  from failing_last_verdict_returned [OF a b c d] b c d show ?thesis by simp
qed

text \<open>
  The counterexample to C6 as stated: both attempts of this run end in a failing
  verdict on a candidate, the \<open>on_validation\<close> callback raises each time, and the run
  returns no candidate and the text of the exception instead of the verdict's log.
\<close>

theorem failing_verdict_lost_to_callback:
  "verdict_at 1 False
     (fst (translate_dashboard (dashboard_env empty_targets_dashboard raising_callback)
            ''src'' 2))
   \<and> verdict_at 2 False
     (fst (translate_dashboard (dashboard_env empty_targets_dashboard raising_callback)
            ''src'' 2))
   \<and> snd (translate_dashboard (dashboard_env empty_targets_dashboard raising_callback)
            ''src'' 2)
       = (False, None, ''callback failed'')"
  by code_simp

subsection \<open>How the conversation grows\<close>

text \<open>A verdict at an attempt means that the completion was parsed and that the
  candidate had the fields the operation requires.\<close>

lemma verdict_means_parsed:
  assumes either: "t = query_try env mr a ms \<and> fb = query_feedback
             \<and> req = [''reasoning'', ''rule_yaml'', ''test_yaml'']
           \<or> t = dashboard_try env mr a ms \<and> fb = dashboard_feedback
             \<and> req = [''grafana_dashboard'']"
      and c: "complete env a ms = Inr (Some reply)"
      and v: "EVerdict k valid lg \<in> set (fst t)"
  shows "\<exists>data. json_loads env reply = Inr data \<and> has_fields req data"
proof (cases "json_loads env reply")
  case (Inl msg)
  then have "py_json_loads env (Some reply) = Inl (Exn JSONDecodeError msg)"
    by (simp add: py_json_loads_def)
  from try_parse_failure [OF c this] either have "fst t = [EGenerate a ms]" by auto
  with v show ?thesis by simp
next
  case (Inr data)
  have "has_fields req data"
  proof (rule ccontr)
    assume n: "\<not> has_fields req data"
    from either have "fst t = [EGenerate a ms]"
    proof
      assume q: "t = query_try env mr a ms \<and> fb = query_feedback
             \<and> req = [''reasoning'', ''rule_yaml'', ''test_yaml'']"
      with n query_try_missing [OF c Inr, of mr] show ?thesis by auto
    next
      assume d: "t = dashboard_try env mr a ms \<and> fb = dashboard_feedback
             \<and> req = [''grafana_dashboard'']"
      with n have "\<not> has_field ''grafana_dashboard'' data" by (simp add: has_fields_def)
      from dashboard_try_missing [OF c Inr this, of mr] d show ?thesis by auto
    qed
    with v show False by simp
  qed
  with Inr show ?thesis by simp
qed

lemma feedback_distinct: "query_feedback \<noteq> dashboard_feedback"
proof
  assume "query_feedback = dashboard_feedback"
  then have "query_feedback [] = dashboard_feedback []" by simp
  then show False by (simp add: query_feedback_def dashboard_feedback_def)
qed

text \<open>
  C3. In a run of either operation, let the model be called at attempt \<open>k\<close> with the
  conversation \<open>m\<close> and at attempt \<open>k + 1\<close> with \<open>m'\<close>. Then \<open>m'\<close> is \<open>m\<close> unchanged,
  unless attempt \<open>k\<close> is not the last one, its completion was returned by the model,
  parsed, had the required fields and drew a failing verdict from the validator: then
  \<open>m'\<close> is \<open>m\<close> followed by the completion as an assistant turn and by a user turn
  holding the follow-up text around the log of that verdict. So nothing is ever
  appended after a failure of the adapter, of the parsing or of the field check.
\<close>

theorem feedback_only_after_failing_verdict:
  assumes "r = translate_query env src mr \<and> fb = query_feedback
             \<and> req = [''reasoning'', ''rule_yaml'', ''test_yaml'']
           \<or> r = translate_dashboard env src mr \<and> fb = dashboard_feedback
             \<and> req = [''grafana_dashboard'']"
      and "EGenerate k m \<in> set (fst r)" and "EGenerate (k + 1) m' \<in> set (fst r)"
  shows "m' = m
       \<or> (k < mr
          \<and> (\<exists>reply data lg.
                complete env k m = Inr (Some reply)
              \<and> json_loads env reply = Inr data \<and> has_fields req data
              \<and> EVerdict k False lg \<in> set (fst r)
              \<and> m' = m @ [\<lparr>role = ''assistant'', content = reply\<rparr>,
                           \<lparr>role = ''user'', content = fb lg\<rparr>]))"
proof -
  from assms(1) have either:
    "r = translate_query env src mr \<and> fb = query_feedback
       \<or> r = translate_dashboard env src mr \<and> fb = dashboard_feedback"
    by blast
  have k: "ev_attempt (EGenerate k m) = k" by simp
  from run_attempt [OF either assms(2) k] obtain msk t where
    t: "t = query_try env mr k msk \<and> fb = query_feedback
          \<or> t = dashboard_try env mr k msk \<and> fb = dashboard_feedback" and
    sub: "set (fst t) \<subseteq> set (fst r)" and
    at: "\<And>ev. ev \<in> set (fst r) \<Longrightarrow> ev_attempt ev = k \<Longrightarrow> ev \<in> set (fst t)" and
    ret: "\<And>res. snd (run_step t mr k msk) = Done res
            \<Longrightarrow> snd r = res \<and> (\<forall>ev\<in>set (fst r). ev_attempt ev \<le> k)" and
    nxt: "\<And>ms' m'. snd (run_step t mr k msk) = Retry ms'
            \<Longrightarrow> EGenerate (k + 1) m' \<in> set (fst r) \<Longrightarrow> m' = ms'"
    by blast
  have t3:
    "t = query_try env mr k msk \<and> fb = query_feedback
         \<and> req = [''reasoning'', ''rule_yaml'', ''test_yaml'']
       \<or> t = dashboard_try env mr k msk \<and> fb = dashboard_feedback
         \<and> req = [''grafana_dashboard'']"
  proof (cases "fb = query_feedback")
    case True
    with feedback_distinct have nd: "fb \<noteq> dashboard_feedback" by simp
    from t nd have "t = query_try env mr k msk" by simp
    moreover from assms(1) nd have "req = [''reasoning'', ''rule_yaml'', ''test_yaml'']"
      by simp
    ultimately show ?thesis using True by simp
  next
    case False
    from t False have "t = dashboard_try env mr k msk \<and> fb = dashboard_feedback" by simp
    moreover from assms(1) False have "req = [''grafana_dashboard'']" by simp
    ultimately show ?thesis by simp
  qed
  from try_tagged [OF t] obtain rest where
    f: "fst t = EGenerate k msk # rest" and tg: "tagged rest k" by blast
  from at [OF assms(2) k] f tagged_mem [OF tg, of "EGenerate k m"] have m: "m = msk" by auto
  show ?thesis
  proof (cases "snd (run_step t mr k msk)")
    case (Done res)
    from ret [OF Done] assms(3) have "ev_attempt (EGenerate (k + 1) m') \<le> k" by blast
    then show ?thesis by simp
  next
    case (Retry ms')
    from nxt [OF Retry assms(3)] have m': "m' = ms'" .
    from try_retry [OF t Retry] show ?thesis
    proof
      assume "ms' = msk"
      with m m' show ?thesis by simp
    next
      assume "k < mr \<and> (\<exists>reply lg. complete env k msk = Inr (Some reply)
                \<and> EVerdict k False lg \<in> set (fst t)
                \<and> ms' = msk @ [\<lparr>role = ''assistant'', content = reply\<rparr>,
                                \<lparr>role = ''user'', content = fb lg\<rparr>])"
      then obtain reply lg where
        lt: "k < mr" and c: "complete env k msk = Inr (Some reply)" and
        v: "EVerdict k False lg \<in> set (fst t)" and
        ms': "ms' = msk @ [\<lparr>role = ''assistant'', content = reply\<rparr>,
                           \<lparr>role = ''user'', content = fb lg\<rparr>]"
        by blast
      from verdict_means_parsed [OF t3 c v] obtain data where
        "json_loads env reply = Inr data" "has_fields req data" by blast
      with lt c v ms' m m' sub show ?thesis by blast
    qed
  qed
qed

theorem feedback_only_after_failing_verdict_witness:
  "EGenerate 1 first_conversation
     \<in> set (fst (translate_dashboard (dashboard_env empty_targets_dashboard None) ''src'' 2))
   \<and> EGenerate (1 + 1)
        (first_conversation
          @ [\<lparr>role = ''assistant'', content = ''reply''\<rparr>,
             \<lparr>role = ''user'', content = dashboard_feedback empty_targets_log\<rparr>])
     \<in> set (fst (translate_dashboard (dashboard_env empty_targets_dashboard None) ''src'' 2))
   \<and> (1::int) < 2
   \<and> EVerdict 1 False empty_targets_log
     \<in> set (fst (translate_dashboard (dashboard_env empty_targets_dashboard None) ''src'' 2))"
proof -
  let ?env = "dashboard_env empty_targets_dashboard None"
  let ?r = "translate_dashboard ?env ''src'' 2"
  let ?m' = "first_conversation
          @ [\<lparr>role = ''assistant'', content = ''reply''\<rparr>,
             \<lparr>role = ''user'', content = dashboard_feedback empty_targets_log\<rparr>]"
  have a: "?r = translate_query ?env ''src'' 2 \<and> dashboard_feedback = query_feedback
             \<and> [''grafana_dashboard''] = [''reasoning'', ''rule_yaml'', ''test_yaml'']
           \<or> ?r = translate_dashboard ?env ''src'' 2 \<and> dashboard_feedback = dashboard_feedback
             \<and> [''grafana_dashboard''] = [''grafana_dashboard'']"
    by simp
  have b: "EGenerate 1 first_conversation \<in> set (fst ?r)"
    by (simp add: dashboard_run_twice_failing)
  have c: "EGenerate (1 + 1) ?m' \<in> set (fst ?r)"
    by (simp add: dashboard_run_twice_failing)
  have d: "EVerdict 1 False empty_targets_log \<in> set (fst ?r)"
    by (simp add: dashboard_run_twice_failing)
  from feedback_only_after_failing_verdict [OF a b c] b c d show ?thesis
    by simp
qed

end
